theory Spec2Isabelle
  imports Complex_Main "HOL-Library.Sublist" "HOL-Library.Log_Nat"
    "HOL-Library.List_Lexorder" "HOL-Library.Char_ord"
begin

section \<open>JavaScript values used by the sources\<close>

text \<open>
  Strings are lists of 8-bit code units (the Latin-1 range of the UTF-16 code units the
  sources work on). A thrown exception is a value \<open>Inl (Error msg)\<close> of a sum type.
\<close>

datatype error = Error string

definition message :: "error \<Rightarrow> string" where
  "message e = (case e of Error m \<Rightarrow> m)"

text \<open>A JavaScript number: a finite value, NaN or an infinity.\<close>

datatype jsnum = Fin rat | NaN | PosInf | NegInf

text \<open>
  Arithmetic on numbers is that of IEEE 754 double precision: the exact result rounded
  to the nearest double, ties going to the even significand. \<open>binary64\<close> is that
  rounding on the rationals: a double has a significand of 53 bits at the binary
  exponent \<open>ilog2\<close> of the number, and no bit below \<open>2^-1074\<close>. (Overflow to an
  infinity is left out; the numbers here stay far from it.)
\<close>

definition ilog2 :: "rat \<Rightarrow> int" where
  "ilog2 x = (if 1 \<le> x then bitlen \<lfloor>x\<rfloor> - 1 else - bitlen (\<lceil>1 / x\<rceil> - 1))"

definition pow2 :: "int \<Rightarrow> rat" where
  "pow2 e = (if 0 \<le> e then 2 ^ nat e else 1 / 2 ^ nat (- e))"

definition round_even :: "rat \<Rightarrow> int" where
  "round_even y =
     (let f = \<lfloor>y\<rfloor>; r = y - of_int f
      in if r < 1 / 2 then f else if 1 / 2 < r then f + 1 else if even f then f else f + 1)"

definition binary64 :: "rat \<Rightarrow> rat" where
  "binary64 x =
     (if x = 0 then 0
      else (let q = pow2 (max (ilog2 \<bar>x\<bar> - 52) (- 1074))
            in q * of_int (round_even (x / q))))"

definition fadd :: "rat \<Rightarrow> rat \<Rightarrow> rat" where
  "fadd x y = binary64 (x + y)"

definition fsub :: "rat \<Rightarrow> rat \<Rightarrow> rat" where
  "fsub x y = binary64 (x - y)"

definition fmul :: "rat \<Rightarrow> rat \<Rightarrow> rat" where
  "fmul x y = binary64 (x * y)"

definition fdiv :: "rat \<Rightarrow> rat \<Rightarrow> rat" where
  "fdiv x y = binary64 (x / y)"

text \<open>\<open>String.prototype.startsWith\<close> and \<open>String.prototype.includes\<close>.\<close>

fun startsWith :: "string \<Rightarrow> string \<Rightarrow> bool" where
  "startsWith s [] = True"
| "startsWith [] (p # ps) = False"
| "startsWith (c # cs) (p # ps) = (c = p \<and> startsWith cs ps)"

fun str_includes :: "string \<Rightarrow> string \<Rightarrow> bool" where
  "str_includes [] sub = (sub = [])"
| "str_includes (c # cs) sub = (startsWith (c # cs) sub \<or> str_includes cs sub)"

text \<open>
  \<open>toLowerCase\<close> on the Latin-1 range: \<open>A\<close>-\<open>Z\<close> and the accented capitals
  \<open>0xC0\<close>-\<open>0xDE\<close> (except the multiplication sign \<open>0xD7\<close>) move up by 32.
\<close>

definition lower_char :: "char \<Rightarrow> char" where
  "lower_char c =
     (let n = (of_char c :: nat)
      in if (65 \<le> n \<and> n \<le> 90) \<or> (192 \<le> n \<and> n \<le> 222 \<and> n \<noteq> 215)
         then char_of (n + 32) else c)"

definition toLowerCase :: "string \<Rightarrow> string" where
  "toLowerCase s = map lower_char s"

text \<open>The class \<open>\s\<close> of regular expressions and \<open>trim\<close>, on the Latin-1 range.\<close>

definition is_space :: "char \<Rightarrow> bool" where
  "is_space c = ((of_char c :: nat) \<in> {9, 10, 11, 12, 13, 32, 160})"

definition is_digit :: "char \<Rightarrow> bool" where
  "is_digit c = (48 \<le> (of_char c :: nat) \<and> (of_char c :: nat) \<le> 57)"

definition trim :: "string \<Rightarrow> string" where
  "trim s = rev (dropWhile is_space (rev (dropWhile is_space s)))"

text \<open>Truthiness of a \<open>string | null | undefined\<close>: only a non-empty string is truthy.\<close>

fun truthy :: "string option \<Rightarrow> bool" where
  "truthy None = False"
| "truthy (Some s) = (s \<noteq> [])"

text \<open>\<open>s.split(/\s+/).filter(Boolean)\<close>: the maximal runs of non-space characters.\<close>

fun split_spaces :: "string \<Rightarrow> string \<Rightarrow> string list" where
  "split_spaces acc [] = (if acc = [] then [] else [rev acc])"
| "split_spaces acc (c # cs) =
     (if is_space c then (if acc = [] then [] else [rev acc]) @ split_spaces [] cs
      else split_spaces (c # acc) cs)"

fun join :: "string \<Rightarrow> string list \<Rightarrow> string" where
  "join sep [] = []"
| "join sep [x] = x"
| "join sep (x # y # ys) = x @ sep @ join sep (y # ys)"

section \<open>The page as the TOTP handler sees it\<close>

text \<open>
  An element behind a Playwright locator: \<open>el_visible\<close> is the value of
  \<open>isVisible().catch(() => false)\<close>; \<open>el_attr\<close> is the DOM attribute table;
  \<open>el_label\<close> is the text of the closest enclosing label (if any); \<open>el_stale\<close>
  says that \<open>getAttribute\<close> and \<open>evaluate\<close> on the locator throw.
\<close>

record element =
  el_visible :: bool
  el_attr :: "string \<Rightarrow> string option"
  el_label :: "string option"
  el_stale :: bool

text \<open>
  A page: \<open>pg_locate sel\<close> is \<open>page.locator(sel).first()\<close> (\<open>None\<close> when nothing
  matches), \<open>pg_headings\<close> the text of each element matching the heading selector
  (\<open>None\<close> for a null or failed \<open>textContent\<close>; a failed \<open>count\<close> is the empty
  list), \<open>pg_by_id\<close> the text of \<open>document.getElementById\<close>.
\<close>

record page =
  pg_locate :: "string \<Rightarrow> element option"
  pg_headings :: "string option list"
  pg_by_id :: "string \<Rightarrow> string option"

definition isVisible :: "element option \<Rightarrow> bool" where
  "isVisible loc = (case loc of None \<Rightarrow> False | Some el \<Rightarrow> el_visible el)"

definition getAttribute :: "element \<Rightarrow> string \<Rightarrow> error + string option" where
  "getAttribute el name =
     (if el_stale el then Inl (Error ''locator.getAttribute failed'') else Inr (el_attr el name))"

definition bindE :: "error + 'a \<Rightarrow> ('a \<Rightarrow> error + 'b) \<Rightarrow> error + 'b" where
  "bindE m f = (case m of Inl e \<Rightarrow> Inl e | Inr x \<Rightarrow> f x)"

text \<open>\<open>const attr = async (name) => (await locator.getAttribute(name) || '').toLowerCase()\<close>\<close>

definition attr :: "element \<Rightarrow> string \<Rightarrow> error + string" where
  "attr el name =
     bindE (getAttribute el name)
       (\<lambda>v. Inr (toLowerCase (case v of None \<Rightarrow> [] | Some s \<Rightarrow> s)))"

text \<open>\<open>await locator.getAttribute(name) || ''\<close>, without the lowering.\<close>

definition attr_raw :: "element \<Rightarrow> string \<Rightarrow> error + string" where
  "attr_raw el name =
     bindE (getAttribute el name) (\<lambda>v. Inr (case v of None \<Rightarrow> [] | Some s \<Rightarrow> s))"

text \<open>The heading test of \<open>detectTotpHeading\<close> on one lowered heading text.\<close>

definition e_acute :: char where
  "e_acute = CHR 0xE9"

definition heading_matches :: "string \<Rightarrow> bool" where
  "heading_matches lowered =
     ((str_includes lowered ''authenticator'' \<and> str_includes lowered ''code'')
      \<or> (str_includes lowered (''code de v'' @ [e_acute] @ ''rification'')
         \<or> str_includes lowered ''code de verification''
         \<or> str_includes lowered (''code de s'' @ [e_acute] @ ''curit'' @ [e_acute])
         \<or> str_includes lowered (''code de securit'' @ [e_acute]))
      \<or> (str_includes lowered ''enter your security code'' \<or> str_includes lowered ''enter your code''))"

fun scanHeadings :: "string option list \<Rightarrow> string option" where
  "scanHeadings [] = None"
| "scanHeadings (h # hs) =
     (case h of
        None \<Rightarrow> scanHeadings hs
      | Some raw \<Rightarrow>
          (let text = trim raw
           in if text = [] then scanHeadings hs
              else if heading_matches (toLowerCase text) then Some text
              else scanHeadings hs))"

definition detectTotpHeading :: "page \<Rightarrow> string option" where
  "detectTotpHeading pg = scanHeadings (take 6 (pg_headings pg))"

text \<open>The closure passed to \<open>locator.evaluate\<close>: label text, else the described-by texts.\<close>

definition labelTextOf :: "page \<Rightarrow> element \<Rightarrow> string" where
  "labelTextOf pg el =
     (if truthy (el_label el) then the (el_label el)
      else if \<not> truthy (el_attr el ''aria-describedby'') then []
      else join '' ''
             (List.map_filter
                (\<lambda>i. if truthy (pg_by_id pg i) then pg_by_id pg i else None)
                (split_spaces [] (the (el_attr el ''aria-describedby'')))))"

definition evaluateLabel :: "page \<Rightarrow> element \<Rightarrow> string" where
  "evaluateLabel pg el = (if el_stale el then [] else labelTextOf pg el)"

definition label_matches :: "string \<Rightarrow> bool" where
  "label_matches labelText =
     (let l = toLowerCase labelText
      in str_includes l ''code'' \<or> str_includes l ''otp'' \<or> str_includes l ''authenticator''
         \<or> str_includes l (''s'' @ [e_acute] @ ''curit'' @ [e_acute])
         \<or> str_includes l (''securit'' @ [e_acute]) \<or> str_includes l ''security'')"

definition heading_hint_matches :: "string \<Rightarrow> bool" where
  "heading_hint_matches h =
     (let l = toLowerCase (toLowerCase h)
      in str_includes l ''code'' \<or> str_includes l ''otp'' \<or> str_includes l ''authenticator'')"

text \<open>
  \<open>maxLength && Number(maxLength) > 0 && Number(maxLength) <= 8\<close>; the conversion
  \<open>Number\<close> of a string to a number is a built-in of the language and a parameter here.
\<close>

definition maxlength_small :: "(string \<Rightarrow> jsnum) \<Rightarrow> string option \<Rightarrow> bool" where
  "maxlength_small num m =
     (truthy m \<and> (case num (the m) of Fin q \<Rightarrow> 0 < q \<and> q \<le> 8 | _ \<Rightarrow> False))"

text \<open>
  The body of the \<open>try\<close> block of \<open>isLikelyTotpInput\<close>, after the visibility
  test, in two parts: the positive signals (from the test of the name for \<open>otc\<close>,
  \<open>otp\<close>, \<open>code\<close> to the end of the block), and before them the exclusions.
\<close>

definition positive_signals ::
  "(string \<Rightarrow> jsnum) \<Rightarrow> page \<Rightarrow> element \<Rightarrow> string \<Rightarrow> string option \<Rightarrow> string
     \<Rightarrow> error + bool" where
  "positive_signals num pg el selector headingHint nameAttr =
     (if str_includes nameAttr ''otc'' \<or> str_includes nameAttr ''otp''
         \<or> str_includes nameAttr ''code''
      then Inr True else
      bindE (attr el ''autocomplete'') (\<lambda>autocomplete.
      if str_includes autocomplete ''one-time'' then Inr True else
      bindE (attr el ''inputmode'') (\<lambda>inputmode.
      if inputmode = ''numeric'' then Inr True else
      bindE (attr_raw el ''pattern'') (\<lambda>pattern.
      if pattern \<noteq> [] \<and> (\<exists>c \<in> set pattern. is_digit c) then Inr True else
      bindE (attr el ''aria-label'') (\<lambda>aria.
      if str_includes aria ''code'' \<or> str_includes aria ''otp''
         \<or> str_includes aria ''authenticator''
      then Inr True else
      bindE (attr el ''placeholder'') (\<lambda>placeholder.
      if str_includes placeholder ''code'' \<or> str_includes placeholder ''security''
         \<or> str_includes placeholder ''authenticator'' then Inr True else
      if str_includes selector ''otc'' \<or> str_includes selector ''otp'' then Inr True else
      bindE (attr el ''id'') (\<lambda>idAttr.
      if startsWith idAttr ''floatinglabelinput''
         \<and> (truthy headingHint \<or> truthy (detectTotpHeading pg)) then Inr True else
      if str_includes (toLowerCase selector) ''floatinglabelinput''
         \<and> (truthy headingHint \<or> truthy (detectTotpHeading pg)) then Inr True else
      bindE (getAttribute el ''maxlength'') (\<lambda>maxLength.
      if maxlength_small num maxLength then Inr True else
      bindE (attr el ''data-testid'') (\<lambda>dataTestId.
      if str_includes dataTestId ''otc'' \<or> str_includes dataTestId ''otp'' then Inr True else
      (let labelText = evaluateLabel pg el
       in if labelText \<noteq> [] \<and> label_matches labelText then Inr True
          else if truthy headingHint \<and> heading_hint_matches (the headingHint) then Inr True
          else Inr False))))))))))"

definition likely_body ::
  "(string \<Rightarrow> jsnum) \<Rightarrow> page \<Rightarrow> element \<Rightarrow> string \<Rightarrow> string option \<Rightarrow> error + bool" where
  "likely_body num pg el selector headingHint =
     bindE (attr el ''type'') (\<lambda>type.
     if type = ''email'' \<or> type = ''password'' then Inr False else
     bindE (attr el ''name'') (\<lambda>nameAttr.
     if str_includes nameAttr ''loginfmt'' \<or> str_includes nameAttr ''passwd''
        \<or> str_includes nameAttr ''email'' \<or> str_includes nameAttr ''login''
     then Inr False
     else positive_signals num pg el selector headingHint nameAttr))"

definition isLikelyTotpInput ::
  "(string \<Rightarrow> jsnum) \<Rightarrow> page \<Rightarrow> element option \<Rightarrow> string \<Rightarrow> string option \<Rightarrow> bool" where
  "isLikelyTotpInput num pg loc selector headingHint =
     (case loc of
        None \<Rightarrow> False
      | Some el \<Rightarrow>
          if \<not> el_visible el then False
          else (case likely_body num pg el selector headingHint of
                  Inl _ \<Rightarrow> False
                | Inr b \<Rightarrow> b))"

section \<open>The TOTP handler\<close>

text \<open>The selector tables \<open>TOTP_SELECTORS\<close>.\<close>

definition sel_input :: "string list" where
  \<open>sel_input =
     [''input[name="otc"]'', ''#idTxtBx_SAOTCC_OTC'', ''#idTxtBx_SAOTCS_OTC'',
      ''input[data-testid="otcInput"]'', ''input[autocomplete="one-time-code"]'',
      ''input[type="tel"][name="otc"]'', ''input[id^="floatingLabelInput"]'']\<close>

definition sel_altOptions :: "string list" where
  \<open>sel_altOptions =
     [''#idA_SAOTCS_ProofPickerChange'', ''#idA_SAOTCC_AlternateLogin'',
      ''a:has-text("Use a different verification option")'',
      ''a:has-text("Sign in another way")'',
      ''a:has-text("I can'' @ [CHR 0x27] @ ''t use my Microsoft Authenticator app right now")'',
      ''button:has-text("Use a different verification option")'',
      ''button:has-text("Sign in another way")'']\<close>

definition sel_challenge :: "string list" where
  \<open>sel_challenge =
     [''[data-value="PhoneAppOTP"]'', ''[data-value="OneTimeCode"]'',
      ''button:has-text("Use a verification code")'',
      ''button:has-text("Enter code manually")'',
      ''button:has-text("Enter a code from your authenticator app")'',
      ''button:has-text("Use code from your authentication app")'',
      ''button:has-text("Utiliser un code de v'' @ [e_acute] @ ''rification")'',
      ''button:has-text("Entrer un code depuis votre application")'',
      ''button:has-text("Entrez un code")'',
      ''div[role="button"]:has-text("Use a verification code")'',
      ''div[role="button"]:has-text("Enter a code")'']\<close>

definition sel_submit :: "string list" where
  \<open>sel_submit =
     [''#idSubmit_SAOTCC_Continue'', ''#idSubmit_SAOTCC_OTC'',
      ''button[type="submit"]:has-text("Verify")'',
      ''button[type="submit"]:has-text("Continuer")'',
      ''button:has-text("Verify")'', ''button:has-text("Continuer")'',
      ''button:has-text("Submit")'', ''button[type="submit"]:has-text("Next")'',
      ''button:has-text("Next")'',
      ''button[data-testid="primaryButton"]:has-text("Next")'']\<close>

definition sel_otc :: string where
  \<open>sel_otc = ''input[name="otc"]''\<close>

text \<open>
  The browser and the clock, over a state \<open>'w\<close> of the outside world: what the page
  shows, what \<open>Date.now()\<close> reads, and how the world moves on under a click, a wait of
  \<open>ms\<close> milliseconds, the typing of a code by \<open>HumanTyping.typeTotp\<close> (which swallows
  its own failures) and a key press (which may throw). \<open>br_totp\<close> is the collaborator
  \<open>generateTOTP\<close>.
\<close>

record 'w browser =
  br_view :: "'w \<Rightarrow> page"
  br_now :: "'w \<Rightarrow> int"
  br_click :: "string \<Rightarrow> 'w \<Rightarrow> 'w"
  br_wait :: "nat \<Rightarrow> 'w \<Rightarrow> 'w"
  br_type :: "string \<Rightarrow> string \<Rightarrow> 'w \<Rightarrow> 'w"
  br_press :: "string \<Rightarrow> 'w \<Rightarrow> error option \<times> 'w"
  br_totp :: "string \<Rightarrow> 'w \<Rightarrow> error + string"

text \<open>What the handler does to the outside, each stamped with the clock reading before it.\<close>

datatype action =
    Click string
  | Wait nat
  | TypeCode string string
  | Press string
  | Log string string

type_synonym trace = "(int \<times> action) list"

text \<open>\<open>findFirstTotpInput\<close>: the loop over \<open>TOTP_SELECTORS.input\<close>.\<close>

fun scanInputs ::
  "(string \<Rightarrow> jsnum) \<Rightarrow> page \<Rightarrow> string option \<Rightarrow> string list \<Rightarrow> string option" where
  "scanInputs num pg headingHint [] = None"
| "scanInputs num pg headingHint (sel # sels) =
     (let loc = pg_locate pg sel
      in if isVisible loc \<and> isLikelyTotpInput num pg loc sel headingHint
         then (if str_includes sel ''floatingLabelInput''
                  \<and> truthy (el_attr (the loc) ''id'')
               then Some (''#'' @ the (el_attr (the loc) ''id''))
               else Some sel)
         else scanInputs num pg headingHint sels)"

definition findFirstTotpInput :: "(string \<Rightarrow> jsnum) \<Rightarrow> page \<Rightarrow> string option" where
  "findFirstTotpInput num pg = scanInputs num pg (detectTotpHeading pg) sel_input"

fun clickFirstVisibleSelector ::
  "'w browser \<Rightarrow> string list \<Rightarrow> 'w \<Rightarrow> bool \<times> 'w \<times> trace" where
  "clickFirstVisibleSelector br [] w = (False, w, [])"
| "clickFirstVisibleSelector br (sel # sels) w =
     (if isVisible (pg_locate (br_view br w) sel)
      then (True, br_click br sel w, [(br_now br w, Click sel)])
      else clickFirstVisibleSelector br sels w)"

fun findFirstVisibleLocator :: "page \<Rightarrow> string list \<Rightarrow> string option" where
  "findFirstVisibleLocator pg [] = None"
| "findFirstVisibleLocator pg (sel # sels) =
     (if isVisible (pg_locate pg sel) then Some sel else findFirstVisibleLocator pg sels)"

text \<open>
  One pass of the reveal loop of \<open>ensureTotpInput\<close>: step 1 (other options), step 2
  (use a code) only when step 1 did not act, each followed by a 900 ms wait when it
  acted. Returns \<open>acted\<close>, the world and the actions.
\<close>

definition reveal_step :: "'w browser \<Rightarrow> 'w \<Rightarrow> bool \<times> 'w \<times> trace" where
  "reveal_step br w =
     (case clickFirstVisibleSelector br sel_altOptions w of
        (True, w1, t1) \<Rightarrow> (True, br_wait br 900 w1, t1 @ [(br_now br w1, Wait 900)])
      | (False, w1, t1) \<Rightarrow>
          (case clickFirstVisibleSelector br sel_challenge w1 of
             (True, w2, t2) \<Rightarrow>
               (True, br_wait br 900 w2, t1 @ t2 @ [(br_now br w2, Wait 900)])
           | (False, w2, t2) \<Rightarrow> (False, w2, t1 @ t2)))"

fun reveal_loop ::
  "'w browser \<Rightarrow> (string \<Rightarrow> jsnum) \<Rightarrow> nat \<Rightarrow> 'w \<Rightarrow> string option \<times> 'w \<times> trace" where
  "reveal_loop br num 0 w = (None, w, [])"
| "reveal_loop br num (Suc k) w =
     (case reveal_step br w of
        (acted, w1, t1) \<Rightarrow>
          (let ready = findFirstTotpInput num (br_view br w1)
           in if truthy ready then (ready, w1, t1)
              else if \<not> acted then (None, w1, t1)
              else (case reveal_loop br num k w1 of
                      (r, w2, t2) \<Rightarrow> (r, w2, t1 @ t2))))"

definition ensureTotpInput ::
  "'w browser \<Rightarrow> (string \<Rightarrow> jsnum) \<Rightarrow> 'w \<Rightarrow> string option \<times> 'w \<times> trace" where
  "ensureTotpInput br num w =
     (let selector = findFirstTotpInput num (br_view br w)
      in if truthy selector then (selector, w, []) else reveal_loop br num 4 w)"

text \<open>The fields of the class \<open>TotpHandler\<close>.\<close>

record totp_state =
  lastTotpSubmit :: int
  totpAttempts :: nat
  currentTotpSecret :: "string option"

definition init_state :: totp_state where
  "init_state = \<lparr>lastTotpSubmit = 0, totpAttempts = 0, currentTotpSecret = None\<rparr>"

definition setTotpSecret :: "string option \<Rightarrow> totp_state \<Rightarrow> totp_state" where
  "setTotpSecret secret st =
     \<lparr>lastTotpSubmit = 0, totpAttempts = 0,
      currentTotpSecret =
        (if truthy secret \<and> trim (the secret) \<noteq> [] then Some (trim (the secret)) else None)\<rparr>"

definition reset :: "totp_state \<Rightarrow> totp_state" where
  "reset st = st\<lparr>lastTotpSubmit := 0, totpAttempts := 0\<rparr>"

definition totp_errMsg :: string where
  "totp_errMsg =
     ''TOTP challenge still present after multiple attempts; verify authenticator secret or approvals.''"

definition timeout_errMsg :: string where
  "timeout_errMsg = ''2FA code input timeout after 120s''"

definition afk_logMsg :: string where
  "afk_logMsg = ''2FA code input timeout (120s) - user AFK''"

text \<open>
  \<open>submitTotpCode\<close>: everything is inside one \<open>try\<close>; a failing \<open>generateTOTP\<close> is
  logged, a hidden input ends the attempt, otherwise the code is typed and submitted by
  the first visible submit control or by the Enter key.
\<close>

definition submitTotpCode :: "'w browser \<Rightarrow> 'w \<Rightarrow> string \<Rightarrow> string \<Rightarrow> 'w \<times> trace" where
  "submitTotpCode br w selector secret =
     (case br_totp br (trim secret) w of
        Inl e \<Rightarrow>
          (w, [(br_now br w, Log ''warn'' (''Failed to submit TOTP automatically: '' @ message e))])
      | Inr code \<Rightarrow>
          if \<not> isVisible (pg_locate (br_view br w) selector)
          then (w, [(br_now br w, Log ''warn'' ''TOTP input unexpectedly hidden'')])
          else
            (let w1 = br_type br selector code w;
                 typed = [(br_now br w, TypeCode selector code)]
             in case findFirstVisibleLocator (br_view br w1) sel_submit of
                  Some s \<Rightarrow>
                    (let w2 = br_click br s w1
                     in (w2, typed @ [(br_now br w1, Click s),
                                      (br_now br w2, Log ''log'' ''Submitted TOTP automatically'')]))
                | None \<Rightarrow>
                    (let w2 = snd (br_press br ''Enter'' w1)
                     in (w2, typed @ [(br_now br w1, Press ''Enter''),
                                      (br_now br w2, Log ''log'' ''Submitted TOTP automatically'')]))))"

text \<open>
  \<open>tryAutoTotp\<close>. The result is the returned boolean or the thrown error, the new
  fields, the world and the actions taken.
\<close>

definition tryAutoTotp ::
  "'w browser \<Rightarrow> (string \<Rightarrow> jsnum) \<Rightarrow> totp_state \<Rightarrow> 'w \<Rightarrow> string \<Rightarrow> string option
     \<Rightarrow> (error + bool) \<times> totp_state \<times> 'w \<times> trace" where
  "tryAutoTotp br num st w context secretArg =
     (let secret = (if truthy secretArg then secretArg else currentTotpSecret st)
      in if \<not> truthy secret then (Inr False, st, w, [])
         else if br_now br w - lastTotpSubmit st < 5000 then (Inr False, st, w, [])
         else
           (case ensureTotpInput br num w of
              (selector, w1, t1) \<Rightarrow>
                if \<not> truthy selector then (Inr False, st, w1, t1)
                else if totpAttempts st \<ge> 3
                then (Inl (Error totp_errMsg), st, w1,
                      t1 @ [(br_now br w1, Log ''error'' totp_errMsg)])
                else
                  (case submitTotpCode br w1 (the selector) (the secret) of
                     (w2, t2) \<Rightarrow>
                       (Inr True,
                        st\<lparr>totpAttempts := totpAttempts st + 1, lastTotpSubmit := br_now br w2\<rparr>,
                        br_wait br 1200 w2,
                        t1 @ [(br_now br w1,
                               Log ''log'' (''Detected TOTP challenge during '' @ context
                                            @ ''; submitting code automatically''))]
                           @ t2 @ [(br_now br w2, Wait 1200)]))))"

text \<open>
  The readline interface and the timer of the manual prompt of \<open>handleSMSOrTotp\<close>.
\<close>

record prompt_state =
  rl_open :: bool
  timer_pending :: bool

text \<open>
  \<open>handleSMSOrTotp\<close>. The operator's line, if any, arrives \<open>d\<close> milliseconds after
  the prompt: \<open>answer = Some (d, line)\<close>. The race between the question and the
  120000 ms timer is won by the line exactly when \<open>d < 120000\<close>. The last component is
  \<open>None\<close> when no readline interface was created.
\<close>

definition rl_close :: "prompt_state \<Rightarrow> prompt_state" where
  "rl_close ps = ps\<lparr>rl_open := False\<rparr>"

definition clearTimeout :: "prompt_state \<Rightarrow> prompt_state" where
  "clearTimeout ps = ps\<lparr>timer_pending := False\<rparr>"

definition timer_fired :: "prompt_state \<Rightarrow> prompt_state" where
  "timer_fired ps = ps\<lparr>timer_pending := False\<rparr>"

definition prompt_race ::
  "(nat \<times> string) option \<Rightarrow> (error + string) \<times> nat \<times> prompt_state" where
  "prompt_race answer =
     (let ps0 = \<lparr>rl_open = True, timer_pending = True\<rparr>;
          expired = (Inl (Error timeout_errMsg), 120000, rl_close (timer_fired ps0))
      in case answer of
           Some (d, line) \<Rightarrow>
             if d < 120000 then (Inr (trim line), d, rl_close (clearTimeout ps0)) else expired
         | None \<Rightarrow> expired)"

text \<open>The \<open>catch\<close> block: a message containing \<open>timeout\<close> is logged as AFK and rethrown.\<close>

definition prompt_catch :: "int \<Rightarrow> error \<Rightarrow> (error + unit) \<times> trace" where
  "prompt_catch t e =
     (if str_includes (message e) ''timeout''
      then (Inl e, [(t, Log ''error'' afk_logMsg)])
      else (Inr (), [(t, Log ''warn'' (''2FA code entry error: '' @ message e))]))"

definition handleSMSOrTotp ::
  "'w browser \<Rightarrow> (string \<Rightarrow> jsnum) \<Rightarrow> totp_state \<Rightarrow> 'w \<Rightarrow> (nat \<times> string) option
     \<Rightarrow> (error + unit) \<times> totp_state \<times> 'w \<times> trace \<times> prompt_state option" where
  "handleSMSOrTotp br num st w answer =
     (case tryAutoTotp br num st w ''manual 2FA entry'' (currentTotpSecret st) of
        (Inl e, st1, w1, t1) \<Rightarrow> (Inl e, st1, w1, t1, None)
      | (Inr True, st1, w1, t1) \<Rightarrow> (Inr (), st1, w1, t1, None)
      | (Inr False, st1, w1, t1) \<Rightarrow>
          (let t2 = t1 @ [(br_now br w1,
                           Log ''log'' ''Waiting for user 2FA code (SMS / Email / App fallback)'')]
           in case prompt_race answer of
                (Inl e, d, ps) \<Rightarrow>
                  (let w2 = br_wait br d w1; (r, t3) = prompt_catch (br_now br w2) e
                   in (r, st1, w2, t2 @ t3, Some (rl_close ps)))
              | (Inr code, d, ps) \<Rightarrow>
                  (let w2 = br_wait br d w1
                   in if \<not> isVisible (pg_locate (br_view br w2) sel_otc)
                      then (Inr (), st1, w2,
                            t2 @ [(br_now br w2, Log ''warn''
                                     ''Page changed while waiting for code (user progressed manually)'')],
                            Some (rl_close ps))
                      else
                        (let w3 = br_type br sel_otc code w2;
                             t3 = t2 @ [(br_now br w2, TypeCode sel_otc code),
                                        (br_now br w3, Press ''Enter'')]
                         in case br_press br ''Enter'' w3 of
                              (Some e, w4) \<Rightarrow>
                                (let (r, t4) = prompt_catch (br_now br w4) e
                                 in (r, st1, w4, t3 @ t4, Some (rl_close ps)))
                            | (None, w4) \<Rightarrow>
                                (Inr (), st1, w4,
                                 t3 @ [(br_now br w4, Log ''log'' ''2FA code submitted'')],
                                 Some (rl_close ps))))))"

section \<open>The retry wrapper of the account creator\<close>

text \<open>
  \<open>retryOperation\<close>. The \<open>a\<close>-th call of the operation returns or throws:
  \<open>operation a\<close>. \<open>Math.random()\<close> is a stream \<open>rnd\<close> of numbers, read in order;
  each a double in \<open>[0, 1)\<close>, and the arithmetic is that of doubles. The third draw of
  a retry is made only when micro-gestures are enabled. \<open>waitForTimeout\<close> and
  \<open>microGestures\<close> are taken not to throw.
\<close>

datatype retry_event = Invoke nat | Sleep int | Gesture nat

function retry_loop ::
  "(nat \<Rightarrow> error + 'a) \<Rightarrow> (nat \<Rightarrow> rat) \<Rightarrow> int \<Rightarrow> rat \<Rightarrow> bool \<Rightarrow> nat \<Rightarrow> nat
     \<Rightarrow> 'a option \<times> retry_event list" where
  "retry_loop operation rnd maxRetries initialDelayMs enableMicroGestures attempt k =
     (if int attempt \<le> maxRetries then
        (case operation attempt of
           Inr result \<Rightarrow> (Some result, [Invoke attempt])
         | Inl e \<Rightarrow>
             if int attempt < maxRetries then
               (let baseDelay = fadd initialDelayMs (fmul (rnd k) 500);
                    variance = fsub (fmul (rnd (k + 1)) 1000) 500;
                    humanDelay = fadd (fadd baseDelay (fmul (of_nat attempt) 800)) variance;
                    gesture = (enableMicroGestures \<and> rnd (k + 2) < binary64 (4 / 10));
                    k' = (if enableMicroGestures then k + 3 else k + 2)
                in case retry_loop operation rnd maxRetries initialDelayMs enableMicroGestures
                          (attempt + 1) k' of
                     (r, ev) \<Rightarrow>
                       (r, [Invoke attempt, Sleep \<lfloor>humanDelay\<rfloor>]
                           @ (if gesture then [Gesture attempt] else []) @ ev))
             else (None, [Invoke attempt]))
      else (None, []))"
  by pat_completeness auto
termination
  by (relation "measure (\<lambda>(operation, rnd, maxRetries, initialDelayMs, g, attempt, k).
                  nat (maxRetries + 1 - int attempt))") auto

definition retryOperation ::
  "(nat \<Rightarrow> error + 'a) \<Rightarrow> (nat \<Rightarrow> rat) \<Rightarrow> int \<Rightarrow> rat \<Rightarrow> bool
     \<Rightarrow> 'a option \<times> retry_event list" where
  "retryOperation operation rnd maxRetries initialDelayMs enableMicroGestures =
     retry_loop operation rnd maxRetries initialDelayMs enableMicroGestures 1 0"

section \<open>Human-like typing\<close>

text \<open>
  \<open>HumanTyping.type\<close>. What reaches the page is a list of events: a key pressed with
  its delay, a key of a burst (pressed with delay 10) and a pause. \<open>Math.random()\<close> is
  a stream of doubles in \<open>[0, 1)\<close> read in order; the arithmetic is that of doubles.
  The speed multiplier is positive (the presets are 1.0 to 3.0).
\<close>

datatype key_event = Key char rat | BurstKey char | Pause int

text \<open>\<open>delay(minMs, maxMs)\<close>: \<open>Math.floor(Math.random() * (maxMs - minMs) + minMs)\<close>.\<close>

definition human_delay :: "rat \<Rightarrow> rat \<Rightarrow> rat \<Rightarrow> int" where
  "human_delay r minMs maxMs = \<lfloor>fadd (fmul r (fsub maxMs minMs)) minMs\<rfloor>"

text \<open>\<open>/[^a-zA-Z0-9@.]/.test(char)\<close>\<close>

definition is_alnum :: "char \<Rightarrow> bool" where
  "is_alnum c =
     (let n = (of_char c :: nat)
      in (97 \<le> n \<and> n \<le> 122) \<or> (65 \<le> n \<and> n \<le> 90) \<or> (48 \<le> n \<and> n \<le> 57))"

definition isSpecialChar :: "char \<Rightarrow> bool" where
  "isSpecialChar c = (\<not> (is_alnum c \<or> c = CHR ''@'' \<or> c = CHR ''.''))"

text \<open>\<open>Math.floor(baseDelay / speed)\<close> with \<open>baseDelay = 40 + Math.random() * 40\<close>.\<close>

definition charDelay :: "rat \<Rightarrow> rat \<Rightarrow> int" where
  "charDelay r speed = \<lfloor>fdiv (fadd 40 (fmul r 40)) speed\<rfloor>"

definition finalDelay :: "char \<Rightarrow> rat \<Rightarrow> rat \<Rightarrow> rat" where
  "finalDelay c r speed =
     (if isSpecialChar c then fmul (of_int (charDelay r speed)) (3 / 2)
      else of_int (charDelay r speed))"

text \<open>The inner loop: \<open>for (j = 0; j < burstLength && i + 1 < text.length; j++)\<close>.\<close>

function burst :: "string \<Rightarrow> nat \<Rightarrow> nat \<Rightarrow> nat \<Rightarrow> nat \<times> key_event list" where
  "burst text burstLength i j =
     (if j < burstLength \<and> i + 1 < length text
      then (case burst text burstLength (i + 1) (j + 1) of
              (i', ev) \<Rightarrow> (i', BurstKey (text ! (i + 1)) # ev))
      else (i, []))"
  by pat_completeness auto
termination
  by (relation "measure (\<lambda>(text, burstLength, i, j). burstLength - j)") auto

declare burst.simps [simp del]

declare burst.simps [simp del]

lemma burst_ge: "i \<le> fst (burst s n i j)"
proof (induction s n i j rule: burst.induct)
  case (1 s burstLength i j)
  show ?case
  proof (cases "j < burstLength \<and> i + 1 < length s")
    case True
    then have "i + 1 \<le> fst (burst s burstLength (i + 1) (j + 1))" using "1.IH" by simp
    with True show ?thesis
      by (cases "burst s burstLength (i + 1) (j + 1)") (simp add: burst.simps[of s burstLength i j])
  next
    case False
    then show ?thesis by (subst burst.simps) auto
  qed
qed

lemma burst_ge_eq: "burst s n i j = (i', ev) \<Longrightarrow> i \<le> i'"
  using burst_ge[of i s n j] by simp

text \<open>
  One pass of the loop over the characters, at index \<open>i\<close>, reading the random stream
  from position \<open>k\<close>: the key with its delay, the occasional pause, the occasional
  burst. Returns the events, the index reached and the next stream position.
  (\<open>text[i]\<close> is a string of one character and so never falsy.)
\<close>

definition type_step ::
  "string \<Rightarrow> rat \<Rightarrow> (nat \<Rightarrow> rat) \<Rightarrow> nat \<Rightarrow> nat \<Rightarrow> key_event list \<times> nat \<times> nat" where
  "type_step text speed rnd i k =
     (let char = text ! i;
          key = Key char (finalDelay char (rnd k) speed);
          pausing = (rnd (k + 1) < binary64 (1 / 10) \<and> 0 < i);
          pause = (if pausing then [Pause (human_delay (rnd (k + 2)) 100 300)] else []);
          k1 = (if pausing then k + 3 else k + 2);
          bursting = (rnd k1 < binary64 (3 / 10) \<and> int i < int (length text) - 2);
          burstLength = nat (\<lfloor>fmul (rnd (k1 + 1)) 2\<rfloor> + 2)
      in if bursting
         then (case burst text burstLength i 0 of
                 (i', bev) \<Rightarrow> (key # pause @ bev, i', k1 + 2))
         else (key # pause, i, k1 + 1))"

lemma type_step_ge: "(ev, i', k') = type_step s speed rnd i k \<Longrightarrow> i \<le> i'"
  by (auto simp add: type_step_def Let_def split: if_splits prod.splits dest: burst_ge_eq)

text \<open>The loop from index \<open>i\<close>, and after it the closing \<open>delay(100, 300)\<close>.\<close>

function type_from :: "string \<Rightarrow> rat \<Rightarrow> (nat \<Rightarrow> rat) \<Rightarrow> nat \<Rightarrow> nat \<Rightarrow> key_event list" where
  "type_from text speed rnd i k =
     (if i < length text
      then (case type_step text speed rnd i k of
              (ev, i', k') \<Rightarrow> ev @ type_from text speed rnd (i' + 1) k')
      else [Pause (human_delay (rnd k) 100 300)])"
  by pat_completeness auto
termination
  by (relation "measure (\<lambda>(s, speed, rnd, i, k). length s - i)")
     (auto dest: type_step_ge)

declare type_from.simps [simp del]

declare type_from.simps [simp del]

text \<open>
  \<open>HumanTyping.type\<close> from the pause after clearing the field to the pause after the
  last character. Waiting for the field, focusing and clearing it involve no timing.
\<close>

definition HumanTyping_type :: "string \<Rightarrow> rat \<Rightarrow> (nat \<Rightarrow> rat) \<Rightarrow> key_event list" where
  "HumanTyping_type text speed rnd =
     Pause (human_delay (rnd 0) 50 150) # type_from text speed rnd 0 1"

section \<open>Recovery from a rejected e-mail address\<close>

text \<open>
  An asynchronous function returns, throws, or never resolves: the account creator
  ends several paths with \<open>await new Promise(() => { })\<close>, which leaves the browser
  open and the caller waiting for ever.
\<close>

datatype 'a outcome = Returns 'a | Throws error | NeverResolves

type_synonym email_result = "bool \<times> string option"

text \<open>
  What the sign-up page answers in the recovery round \<open>n\<close> (the value of
  \<open>retryCount\<close>): the error shown (\<open>None\<close> when no error element is visible, else its
  text), what the input holds when read back after the \<open>a\<close>-th typing, whether the
  clicks of the round succeed, the address \<open>generateEmail()\<close> produces, the suggestion
  buttons, and the three observations made after a suggestion was clicked.
\<close>

datatype suggestions = NoContainer | Container "string option list"

record email_env =
  env_error :: "nat \<Rightarrow> string option"
  env_input :: "nat \<Rightarrow> nat \<Rightarrow> string"
  env_click :: "nat \<Rightarrow> bool"
  env_generated :: "nat \<Rightarrow> string"
  env_suggestions :: "nat \<Rightarrow> suggestions"
  env_errorStillVisible :: "nat \<Rightarrow> bool"
  env_nextEnabled :: "nat \<Rightarrow> bool"
  env_finalError :: "nat \<Rightarrow> bool"

datatype email_event = Submitted string | SuggestionClicked string

text \<open>\<open>s.split('@')\<close>\<close>

fun split_at :: "string \<Rightarrow> string \<Rightarrow> string list" where
  "split_at acc [] = [rev acc]"
| "split_at acc (c # cs) =
     (if c = CHR ''@'' then rev acc # split_at [] cs else split_at (c # acc) cs)"

definition isMicrosoftDomain :: "string option \<Rightarrow> bool" where
  "isMicrosoftDomain domain =
     (truthy domain
      \<and> (let lowerDomain = toLowerCase (the domain)
         in lowerDomain = ''outlook.com'' \<or> lowerDomain = ''hotmail.com''
            \<or> lowerDomain = ''outlook.fr''))"

text \<open>
  The operation retried when an address is typed again: type it, read the input back,
  accept the full address or, for a Microsoft domain, the user name alone.
\<close>

definition verify_fill :: "email_env \<Rightarrow> nat \<Rightarrow> string \<Rightarrow> string \<Rightarrow> nat \<Rightarrow> error + bool" where
  "verify_fill env n newEmail errMsg a =
     (let inputValue = env_input env n a;
          parts = split_at [] newEmail;
          emailUsername = hd parts;
          emailDomain = (if 1 < length parts then Some (parts ! 1) else None);
          isFullMatch = (inputValue = newEmail);
          isUsernameOnlyMatch = (inputValue = emailUsername \<and> isMicrosoftDomain emailDomain)
      in if isFullMatch \<or> isUsernameOnlyMatch then Inr True else Inl (Error errMsg))"

text \<open>
  \<open>handleReservedDomain\<close> and \<open>handleEmailTaken\<close> up to their last statement: they
  end with a result, or go on to \<open>handleEmailErrors(newEmail, retryCount + 1)\<close>.
\<close>

datatype recovery = Final "email_result outcome" | Recheck string

definition reservedDomain_step ::
  "email_env \<Rightarrow> (nat \<Rightarrow> rat) \<Rightarrow> string \<Rightarrow> nat \<Rightarrow> recovery \<times> email_event list" where
  "reservedDomain_step env rnd originalEmail retryCount =
     (let username = hd (split_at [] originalEmail);
          newEmail = username @ ''@outlook.com'';
          retryFillSuccess =
            fst (retryOperation
                   (verify_fill env retryCount newEmail ''Email retry input value not verified'')
                   rnd 3 1000 True)
      in if retryFillSuccess \<noteq> Some True then (Final (Returns (False, None)), [])
         else if \<not> env_click env retryCount
         then (Final (Throws (Error ''locator.click: Timeout 5000ms exceeded.'')), [])
         else (Recheck newEmail, [Submitted newEmail]))"

definition emailTaken_step ::
  "email_env \<Rightarrow> (nat \<Rightarrow> rat) \<Rightarrow> nat \<Rightarrow> recovery \<times> email_event list" where
  "emailTaken_step env rnd retryCount =
     (case env_suggestions env retryCount of
        NoContainer \<Rightarrow>
          (let newEmail = env_generated env retryCount;
               retryFillSuccess =
                 fst (retryOperation
                        (verify_fill env retryCount newEmail
                           ''Email auto-retry input value not verified'')
                        rnd 3 1000 True)
           in if retryFillSuccess \<noteq> Some True then (Final (Returns (False, None)), [])
              else if \<not> env_click env retryCount
              then (Final (Throws (Error ''locator.click: Timeout 30000ms exceeded.'')), [])
              else (Recheck newEmail, [Submitted newEmail]))
      | Container buttons \<Rightarrow>
          (case buttons of
             [] \<Rightarrow> (Final NeverResolves, [])
           | firstButton # _ \<Rightarrow>
               (let suggestedEmail = (case firstButton of None \<Rightarrow> [] | Some t \<Rightarrow> t);
                    trimmed = trim suggestedEmail;
                    cleanEmail = (if trimmed \<noteq> [] \<and> \<not> str_includes trimmed ''@''
                                  then trimmed @ ''@outlook.com'' else trimmed)
                in if cleanEmail = [] then (Final NeverResolves, [])
                   else if \<not> env_click env retryCount
                   then (Final (Throws (Error ''locator.click: Timeout 5000ms exceeded.'')), [])
                   else if env_errorStillVisible env retryCount
                             \<and> env_nextEnabled env retryCount \<and> env_finalError env retryCount
                   then (Final NeverResolves, [SuggestionClicked cleanEmail])
                   else (Final (Returns (True, Some cleanEmail)), [SuggestionClicked cleanEmail]))))"

definition reserved_text :: "string \<Rightarrow> bool" where
  "reserved_text errorText =
     (errorText \<noteq> []
      \<and> (str_includes (toLowerCase errorText) ''reserved''
         \<or> str_includes (toLowerCase errorText) (''r'' @ [e_acute] @ ''serv'' @ [e_acute])))"

definition taken_text :: "string \<Rightarrow> bool" where
  "taken_text errorText =
     (errorText \<noteq> []
      \<and> (str_includes (toLowerCase errorText) ''taken''
         \<or> str_includes (toLowerCase errorText) ''pris''
         \<or> str_includes (toLowerCase errorText) ''already''
         \<or> str_includes (toLowerCase errorText) (''d'' @ [e_acute] @ ''j'' @ [CHR 0xE0])))"

definition password_info :: "string \<Rightarrow> bool" where
  "password_info errorText =
     (errorText \<noteq> [] \<and> str_includes (toLowerCase errorText) ''password''
      \<and> str_includes (toLowerCase errorText) ''characters'')"

definition MAX_EMAIL_RETRIES :: nat where
  "MAX_EMAIL_RETRIES = 5"

function handleEmailErrors ::
  "email_env \<Rightarrow> (nat \<Rightarrow> rat) \<Rightarrow> string \<Rightarrow> nat \<Rightarrow> email_result outcome \<times> email_event list" where
  "handleEmailErrors env rnd originalEmail retryCount =
     (if retryCount \<ge> MAX_EMAIL_RETRIES then (NeverResolves, [])
      else
        (case env_error env retryCount of
           None \<Rightarrow> (Returns (True, Some originalEmail), [])
         | Some errorText \<Rightarrow>
             if password_info errorText then (Returns (True, Some originalEmail), [])
             else if reserved_text errorText
             then (case reservedDomain_step env rnd originalEmail retryCount of
                     (Final r, ev) \<Rightarrow> (r, ev)
                   | (Recheck newEmail, ev) \<Rightarrow>
                       (case handleEmailErrors env rnd newEmail (retryCount + 1) of
                          (r, ev2) \<Rightarrow> (r, ev @ ev2)))
             else if taken_text errorText
             then (case emailTaken_step env rnd retryCount of
                     (Final r, ev) \<Rightarrow> (r, ev)
                   | (Recheck newEmail, ev) \<Rightarrow>
                       (case handleEmailErrors env rnd newEmail (retryCount + 1) of
                          (r, ev2) \<Rightarrow> (r, ev @ ev2)))
             else (NeverResolves, [])))"
  by pat_completeness auto
termination
  by (relation "measure (\<lambda>(env, rnd, originalEmail, retryCount). MAX_EMAIL_RETRIES - retryCount)")
     auto

declare handleEmailErrors.simps [simp del]

declare handleEmailErrors.simps [simp del]

definition handleReservedDomain ::
  "email_env \<Rightarrow> (nat \<Rightarrow> rat) \<Rightarrow> string \<Rightarrow> nat \<Rightarrow> email_result outcome \<times> email_event list" where
  "handleReservedDomain env rnd originalEmail retryCount =
     (case reservedDomain_step env rnd originalEmail retryCount of
        (Final r, ev) \<Rightarrow> (r, ev)
      | (Recheck newEmail, ev) \<Rightarrow>
          (case handleEmailErrors env rnd newEmail (retryCount + 1) of
             (r, ev2) \<Rightarrow> (r, ev @ ev2)))"

definition handleEmailTaken ::
  "email_env \<Rightarrow> (nat \<Rightarrow> rat) \<Rightarrow> nat \<Rightarrow> email_result outcome \<times> email_event list" where
  "handleEmailTaken env rnd retryCount =
     (case emailTaken_step env rnd retryCount of
        (Final r, ev) \<Rightarrow> (r, ev)
      | (Recheck newEmail, ev) \<Rightarrow>
          (case handleEmailErrors env rnd newEmail (retryCount + 1) of
             (r, ev2) \<Rightarrow> (r, ev @ ev2)))"

section \<open>The vacation block of the configuration\<close>

text \<open>
  A value read from the JSON configuration. \<open>JOther s\<close> is an array or object whose
  conversion to a string is \<open>s\<close>.
\<close>

datatype jsval = JUndefined | JNull | JBool bool | JNum jsnum | JStr string | JOther string

text \<open>
  \<open>Number(v)\<close>. The conversion of a string to a number is a built-in of the language
  and a parameter here.
\<close>

definition Number_js :: "(string \<Rightarrow> jsnum) \<Rightarrow> jsval \<Rightarrow> jsnum" where
  "Number_js num v =
     (case v of
        JUndefined \<Rightarrow> NaN
      | JNull \<Rightarrow> Fin 0
      | JBool b \<Rightarrow> Fin (if b then 1 else 0)
      | JNum n \<Rightarrow> n
      | JStr s \<Rightarrow> num s
      | JOther s \<Rightarrow> num s)"

text \<open>\<open>isFinite(v) && v > 0 ? Math.floor(v) : dflt\<close>\<close>

definition days_or :: "jsnum \<Rightarrow> int \<Rightarrow> int" where
  "days_or v dflt = (case v of Fin q \<Rightarrow> if 0 < q then \<lfloor>q\<rfloor> else dflt | _ \<Rightarrow> dflt)"

text \<open>
  The field \<open>vacation\<close> of the raw configuration: absent or falsy, a truthy primitive
  (on which the assignment of a property throws in strict mode), or an object.
\<close>

record vacation_raw =
  raw_enabled :: jsval
  raw_minDays :: jsval
  raw_maxDays :: jsval

datatype vacation_field = VacFalsy | VacPrimitive | VacObject vacation_raw

record vacation =
  enabled :: bool
  minDays :: int
  maxDays :: int

text \<open>The block \<open>Vacation mode\<close> of \<open>normalizeConfig\<close>.\<close>

definition normalize_vacation :: "(string \<Rightarrow> jsnum) \<Rightarrow> vacation_field \<Rightarrow> error + vacation" where
  "normalize_vacation num field =
     (case field of
        VacPrimitive \<Rightarrow> Inl (Error ''TypeError: Cannot create property on a primitive value'')
      | _ \<Rightarrow>
          (let v = (case field of
                      VacObject ob \<Rightarrow> ob
                    | _ \<Rightarrow> \<lparr>raw_enabled = JUndefined, raw_minDays = JUndefined,
                              raw_maxDays = JUndefined\<rparr>);
               en = (case raw_enabled v of JBool b \<Rightarrow> b | _ \<Rightarrow> False);
               vMin = Number_js num (raw_minDays v);
               vMax = Number_js num (raw_maxDays v);
               mn = days_or vMin 3;
               mx = days_or vMax 5
           in if mx < mn then Inr \<lparr>enabled = en, minDays = mx, maxDays = mn\<rparr>
              else Inr \<lparr>enabled = en, minDays = mn, maxDays = mx\<rparr>))"

section \<open>The error-report endpoint\<close>

text \<open>
  The regular expressions of the endpoint are built from matchers. A matcher looks at a
  text from its start and gives the length of the match there; it is greedy and does not
  backtrack, which none of the expressions here needs. \<open>gsub\<close> is
  \<open>String.prototype.replace\<close> with a global pattern: the text is scanned from the left,
  each match is replaced and the scan goes on behind it. (No pattern here matches the
  empty string.)
\<close>

type_synonym matcher = "string \<Rightarrow> nat option"

definition m_char :: "(char \<Rightarrow> bool) \<Rightarrow> matcher" where
  "m_char P s = (case s of [] \<Rightarrow> None | c # _ \<Rightarrow> if P c then Some 1 else None)"

definition m_str :: "string \<Rightarrow> matcher" where
  "m_str lit s = (if startsWith s lit then Some (length lit) else None)"


definition m_seq :: "matcher \<Rightarrow> matcher \<Rightarrow> matcher" where
  "m_seq m1 m2 s =
     (case m1 s of
        None \<Rightarrow> None
      | Some n \<Rightarrow> (case m2 (drop n s) of None \<Rightarrow> None | Some k \<Rightarrow> Some (n + k)))"

definition m_alt :: "matcher \<Rightarrow> matcher \<Rightarrow> matcher" where
  "m_alt m1 m2 s = (case m1 s of Some n \<Rightarrow> Some n | None \<Rightarrow> m2 s)"

definition m_opt :: "matcher \<Rightarrow> matcher" where
  "m_opt m s = (case m s of Some n \<Rightarrow> Some n | None \<Rightarrow> Some 0)"

definition m_star :: "(char \<Rightarrow> bool) \<Rightarrow> matcher" where
  "m_star P s = Some (length (takeWhile P s))"

definition m_plus :: "(char \<Rightarrow> bool) \<Rightarrow> matcher" where
  "m_plus P s = (if takeWhile P s = [] then None else Some (length (takeWhile P s)))"

fun m_rep :: "nat \<Rightarrow> (char \<Rightarrow> bool) \<Rightarrow> matcher" where
  "m_rep 0 P s = Some 0"
| "m_rep (Suc k) P s = m_seq (m_char P) (m_rep k P) s"

function gsub :: "matcher \<Rightarrow> (string \<Rightarrow> string) \<Rightarrow> string \<Rightarrow> string" where
  "gsub m rep [] = []"
| "gsub m rep (c # cs) =
     (case m (c # cs) of
        None \<Rightarrow> c # gsub m rep cs
      | Some 0 \<Rightarrow> c # gsub m rep cs
      | Some (Suc n) \<Rightarrow> rep (take (Suc n) (c # cs)) @ gsub m rep (drop n cs))"
  by pat_completeness auto
termination
  by (relation "measure (\<lambda>(m, rep, s). length s)") auto

text \<open>The classes \<open>[0-9a-fA-F]\<close>, \<open>[A-Za-z]\<close> and \<open>[^\s:]\<close>, and the five patterns of \<open>normalizeForId\<close>.\<close>

definition is_hex :: "char \<Rightarrow> bool" where
  "is_hex c =
     (let n = (of_char c :: nat)
      in (48 \<le> n \<and> n \<le> 57) \<or> (97 \<le> n \<and> n \<le> 102) \<or> (65 \<le> n \<and> n \<le> 70))"

definition is_letter :: "char \<Rightarrow> bool" where
  "is_letter c =
     (let n = (of_char c :: nat) in (97 \<le> n \<and> n \<le> 122) \<or> (65 \<le> n \<and> n \<le> 90))"

definition re_iso :: matcher where
  "re_iso =
     m_seq (m_rep 4 is_digit) (m_seq (m_str ''-'') (m_seq (m_rep 2 is_digit) (m_seq (m_str ''-'')
     (m_seq (m_rep 2 is_digit) (m_seq (m_str ''T'') (m_seq (m_rep 2 is_digit) (m_seq (m_str '':'')
     (m_seq (m_rep 2 is_digit) (m_seq (m_str '':'') (m_seq (m_rep 2 is_digit) (m_seq (m_str ''.'')
     (m_seq (m_plus is_digit) (m_str ''Z'')))))))))))))"

definition re_hex :: matcher where
  "re_hex = m_seq (m_str ''0x'') (m_plus is_hex)"

definition path_char :: "char \<Rightarrow> bool" where
  "path_char c = (\<not> is_space c \<and> c \<noteq> CHR '':'')"

definition re_path :: matcher where
  "re_path =
     m_seq (m_alt (m_seq (m_char is_letter) (m_str [CHR '':'', CHR 0x5C])) (m_str ''/''))
           (m_star path_char)"

definition re_linecol :: matcher where
  "re_linecol =
     m_seq (m_str '':'') (m_seq (m_plus is_digit) (m_opt (m_seq (m_str '':'') (m_plus is_digit))))"

definition re_spaces :: matcher where
  "re_spaces = m_plus is_space"

text \<open>\<open>normalizeForId\<close>: the four replacements, then the collapsing of white space and \<open>trim\<close>.\<close>

definition normalize_tokens :: "string \<Rightarrow> string" where
  "normalize_tokens t =
     gsub re_linecol (\<lambda>_. [])
       (gsub re_path (\<lambda>_. ''[PATH]'') (gsub re_hex (\<lambda>_. []) (gsub re_iso (\<lambda>_. []) t)))"

definition normalizeForId :: "string \<Rightarrow> string" where
  "normalizeForId text =
     (if text = [] then [] else trim (gsub re_spaces (\<lambda>_. '' '') (normalize_tokens text)))"







text \<open>
  A report: the fields of the request body, with \<open>String\<close> applied to the values of the
  two context objects. An absent \<open>error\<close> is the empty string, an absent or empty
  \<open>stack\<close> is \<open>None\<close> or \<open>Some []\<close>.
\<close>

record report =
  rp_error :: string
  rp_stack :: "string option"
  rp_context :: "(string \<times> string) list"
  rp_additional :: "(string \<times> string) list"

text \<open>\<open>for (const k of keys) parts.push(`${k}=${String(obj[k])}`)\<close> over the sorted keys.\<close>

definition key_parts :: "(string \<Rightarrow> bool) \<Rightarrow> (string \<times> string) list \<Rightarrow> string list" where
  "key_parts keep obj =
     map (\<lambda>k. k @ ''='' @ the (map_of obj k)) (sort (filter keep (remdups (map fst obj))))"

definition canonical :: "report \<Rightarrow> string" where
  "canonical payload =
     join ''|''
       ([normalizeForId (rp_error payload)]
        @ (if truthy (rp_stack payload) then [normalizeForId (the (rp_stack payload))] else [])
        @ key_parts (\<lambda>k. k \<noteq> ''timestamp'') (rp_context payload)
        @ key_parts (\<lambda>k. True) (rp_additional payload))"


















section \<open>Observations on traces\<close>

text \<open>The disclosure clicks in a trace.\<close>

fun is_click :: "action \<Rightarrow> bool" where
  "is_click (Click s) = True"
| "is_click a = False"

definition clicks :: "trace \<Rightarrow> nat" where
  "clicks tr = length (filter (\<lambda>e. is_click (snd e)) tr)"

text \<open>
  The control a pass of the reveal loop is to click: the first visible
  \<open>other options\<close> control, otherwise the first visible \<open>use a code\<close> control.
\<close>

definition disclosure :: "'w browser \<Rightarrow> 'w \<Rightarrow> string option" where
  "disclosure br w =
     (case List.find (\<lambda>s. isVisible (pg_locate (br_view br w) s)) sel_altOptions of
        Some s \<Rightarrow> Some s
      | None \<Rightarrow> List.find (\<lambda>s. isVisible (pg_locate (br_view br w) s)) sel_challenge)"

text \<open>
  A trace is a run of reveal passes from \<open>w\<close> when it is a sequence of pairs, a click
  and a wait of 900 ms, where each pass starts with the code input unresolved and clicks
  the control \<open>disclosure\<close> names on the page as it then is.
\<close>

fun reveal_passes :: "'w browser \<Rightarrow> (string \<Rightarrow> jsnum) \<Rightarrow> 'w \<Rightarrow> trace \<Rightarrow> bool" where
  "reveal_passes br num w [] = True"
| "reveal_passes br num w [e] = False"
| "reveal_passes br num w ((t1, a1) # (t2, a2) # tr) =
     (case disclosure br w of
        None \<Rightarrow> False
      | Some s \<Rightarrow>
          \<not> truthy (findFirstTotpInput num (br_view br w))
          \<and> t1 = br_now br w \<and> a1 = Click s
          \<and> t2 = br_now br (br_click br s w) \<and> a2 = Wait 900
          \<and> reveal_passes br num (br_wait br 900 (br_click br s w)) tr)"

text \<open>The world after the clicks and waits of a trace.\<close>

fun after :: "'w browser \<Rightarrow> 'w \<Rightarrow> trace \<Rightarrow> 'w" where
  "after br w [] = w"
| "after br w ((t, Click s) # tr) = after br (br_click br s w) tr"
| "after br w ((t, Wait n) # tr) = after br (br_wait br n w) tr"
| "after br w (e # tr) = after br w tr"

text \<open>The times at which a code was typed into the page, and all the actions of a trace.\<close>

fun submission_times :: "trace \<Rightarrow> int list" where
  "submission_times [] = []"
| "submission_times ((t, TypeCode s c) # tr) = t # submission_times tr"
| "submission_times (e # tr) = submission_times tr"

definition actions :: "trace \<Rightarrow> action set" where
  "actions t = snd ` set t"

text \<open>
  The clock does not run backwards while the handler acts on the page: no click, wait,
  typing or key press lowers the reading of \<open>Date.now()\<close>.
\<close>

definition clock_mono :: "'w browser \<Rightarrow> bool" where
  "clock_mono br =
     (\<forall>w. (\<forall>s. br_now br w \<le> br_now br (br_click br s w))
        \<and> (\<forall>n. br_now br w \<le> br_now br (br_wait br n w))
        \<and> (\<forall>s c. br_now br w \<le> br_now br (br_type br s c w))
        \<and> (\<forall>k. br_now br w \<le> br_now br (snd (br_press br k w))))"

text \<open>
  A sequence of calls to \<open>tryAutoTotp\<close> on one handler. Before each call the world
  moves on in any way (\<open>f\<close>); a call that throws leaves the handler usable, as a
  caller that catches the error does.
\<close>

fun run_calls ::
  "'w browser \<Rightarrow> (string \<Rightarrow> jsnum) \<Rightarrow> totp_state \<Rightarrow> 'w
     \<Rightarrow> (('w \<Rightarrow> 'w) \<times> string \<times> string option) list \<Rightarrow> totp_state \<times> 'w \<times> trace" where
  "run_calls br num st w [] = (st, w, [])"
| "run_calls br num st w ((f, ctx, secretArg) # cs) =
     (case tryAutoTotp br num st (f w) ctx secretArg of
        (r, st1, w1, t1) \<Rightarrow>
          (case run_calls br num st1 w1 cs of (st2, w2, t2) \<Rightarrow> (st2, w2, t1 @ t2)))"

text \<open>The operator's line when it arrives before the 120 s timer fires.\<close>

definition answer_in_time :: "(nat \<times> string) option \<Rightarrow> (nat \<times> string) option" where
  "answer_in_time answer =
     (case answer of
        Some (d, line) \<Rightarrow> if d < 120000 then Some (d, line) else None
      | None \<Rightarrow> None)"

text \<open>The attempts and the sleeps in the events of \<open>retryOperation\<close>.\<close>

fun invocations :: "retry_event list \<Rightarrow> nat list" where
  "invocations [] = []"
| "invocations (Invoke a # ev) = a # invocations ev"
| "invocations (e # ev) = invocations ev"

fun sleeps :: "retry_event list \<Rightarrow> int list" where
  "sleeps [] = []"
| "sleeps (Sleep d # ev) = d # sleeps ev"
| "sleeps (e # ev) = sleeps ev"

text \<open>
  The value \<open>humanDelay\<close> computed after the failed attempt \<open>a\<close>, from the draws
  made at that point.
\<close>

definition draws_per_retry :: "bool \<Rightarrow> nat" where
  "draws_per_retry enableMicroGestures = (if enableMicroGestures then 3 else 2)"

definition retry_delay :: "(nat \<Rightarrow> rat) \<Rightarrow> rat \<Rightarrow> bool \<Rightarrow> nat \<Rightarrow> rat" where
  "retry_delay rnd initialDelayMs g a =
     fadd (fadd (fadd initialDelayMs (fmul (rnd (draws_per_retry g * (a - 1))) 500))
                (fmul (of_nat a) 800))
          (fsub (fmul (rnd (draws_per_retry g * (a - 1) + 1)) 1000) 500)"


text \<open>The addresses submitted again during the recovery.\<close>

fun resubmissions :: "email_event list \<Rightarrow> string list" where
  "resubmissions [] = []"
| "resubmissions (Submitted e # ev) = e # resubmissions ev"
| "resubmissions (x # ev) = resubmissions ev"


text \<open>
  A matcher is local at a class of characters when a match lies inside the text given and
  neither a match nor its length depends on what follows the next character of the class.
\<close>

definition local_at :: "(char \<Rightarrow> bool) \<Rightarrow> matcher \<Rightarrow> bool" where
  "local_at S m =
     ((\<forall>s n. m s = Some n \<longrightarrow> n \<le> length s)
      \<and> (\<forall>s w t. S w \<longrightarrow> m (s @ w # t) = m s))"

text \<open>
  A plain character is one that no pattern of \<open>normalizeForId\<close> looks for (brackets,
  quotes, commas and the like).
\<close>

definition plain :: "char \<Rightarrow> bool" where
  "plain c =
     (\<not> is_digit c \<and> \<not> is_letter c \<and> \<not> is_space c
      \<and> c \<notin> set ''/:-.'' \<and> c \<noteq> CHR 0x5C)"











section \<open>Concrete inputs\<close>

text \<open>A visible password field that carries every code-related signal.\<close>

definition pw_field :: element where
  \<open>pw_field = \<lparr>el_visible = True,
     el_attr = map_of [(''type'', ''password''), (''name'', ''otc''),
                       (''autocomplete'', ''one-time-code''), (''inputmode'', ''numeric''),
                       (''maxlength'', ''6'')],
     el_label = Some ''Enter code'', el_stale = False\<rparr>\<close>

definition blank_page :: page where
  "blank_page = \<lparr>pg_locate = (\<lambda>_. None), pg_headings = [], pg_by_id = (\<lambda>_. None)\<rparr>"

text \<open>A visible code input, a visible disclosure control, pages built from a table.\<close>

definition otc_field :: element where
  \<open>otc_field = \<lparr>el_visible = True,
     el_attr = map_of [(''type'', ''tel''), (''name'', ''otc'')],
     el_label = None, el_stale = False\<rparr>\<close>

definition link :: element where
  "link = \<lparr>el_visible = True, el_attr = (\<lambda>_. None), el_label = None, el_stale = False\<rparr>"

definition page_with :: "(string \<times> element) list \<Rightarrow> page" where
  "page_with xs = \<lparr>pg_locate = map_of xs, pg_headings = [], pg_by_id = (\<lambda>_. None)\<rparr>"

text \<open>
  A small world: a clock and a stage counter. Every click takes 100 ms and moves the
  page to the next stage; waiting and typing take time; no key press fails.
\<close>

definition demo_browser :: "(nat \<Rightarrow> page) \<Rightarrow> (int \<times> nat) browser" where
  "demo_browser pages =
     \<lparr>br_view = (\<lambda>w. pages (snd w)),
      br_now = fst,
      br_click = (\<lambda>s w. (fst w + 100, Suc (snd w))),
      br_wait = (\<lambda>ms w. (fst w + int ms, snd w)),
      br_type = (\<lambda>s code w. (fst w + 300, snd w)),
      br_press = (\<lambda>k w. (None, (fst w + 10, snd w))),
      br_totp = (\<lambda>secret w. Inr ''123456'')\<rparr>"

definition both_pages :: "nat \<Rightarrow> page" where
  \<open>both_pages n =
     (if n = 0 then page_with [(''[data-value="OneTimeCode"]'', link),
                               (''#idA_SAOTCC_AlternateLogin'', link)]
      else if n = 1 then page_with [(''[data-value="OneTimeCode"]'', link)]
      else page_with [(sel_otc, otc_field)])\<close>

definition otc_pages :: "nat \<Rightarrow> page" where
  "otc_pages n = page_with [(sel_otc, otc_field)]"

definition no_num :: "string \<Rightarrow> jsnum" where
  "no_num s = NaN"

definition secret_state :: totp_state where
  "secret_state = setTotpSecret (Some '' JBSWY3DPEHPK3PXP '') init_state"

text \<open>Handler states after one and after three automatic submissions; call sequences.\<close>

definition plus4000 :: "int \<times> nat \<Rightarrow> int \<times> nat" where
  "plus4000 w = (fst w + 4000, snd w)"

definition plus5000 :: "int \<times> nat \<Rightarrow> int \<times> nat" where
  "plus5000 w = (fst w + 5000, snd w)"

definition hasty_calls :: "((int \<times> nat \<Rightarrow> int \<times> nat) \<times> string \<times> string option) list" where
  "hasty_calls = [(id, ''first'', None), (id, ''second'', None), (plus4000, ''third'', None)]"

definition patient_calls :: "((int \<times> nat \<Rightarrow> int \<times> nat) \<times> string \<times> string option) list" where
  "patient_calls = [(id, ''first'', None), (plus5000, ''second'', None), (plus5000, ''third'', None)]"

definition once_state :: totp_state where
  "once_state = \<lparr>lastTotpSubmit = 10310, totpAttempts = 1,
                  currentTotpSecret = Some ''JBSWY3DPEHPK3PXP''\<rparr>"

definition thrice_state :: totp_state where
  "thrice_state = \<lparr>lastTotpSubmit = 23330, totpAttempts = 3,
                    currentTotpSecret = Some ''JBSWY3DPEHPK3PXP''\<rparr>"

definition blank_pages :: "nat \<Rightarrow> page" where
  "blank_pages n = blank_page"

definition reveal_trace :: trace where
  \<open>reveal_trace =
     [(0, Click ''#idA_SAOTCC_AlternateLogin''), (100, Wait 900),
      (1000, Click ''[data-value="OneTimeCode"]''), (1100, Wait 900)]\<close>

definition stuck_pages :: "nat \<Rightarrow> page" where
  \<open>stuck_pages n = page_with [(''button:has-text("Sign in another way")'', link)]\<close>

definition stuck_trace :: trace where
  \<open>stuck_trace =
     [(0, Click ''button:has-text("Sign in another way")''), (100, Wait 900),
      (1000, Click ''button:has-text("Sign in another way")''), (1100, Wait 900),
      (2000, Click ''button:has-text("Sign in another way")''), (2100, Wait 900),
      (3000, Click ''button:has-text("Sign in another way")''), (3100, Wait 900)]\<close>




definition top_rnd :: "nat \<Rightarrow> rat" where
  "top_rnd k = 1 - 1 / 2 ^ 52"

definition edge_rnd :: "nat \<Rightarrow> rat" where
  "edge_rnd k = (if k = 0 then 1 - 1 / 2 ^ 52 else 1 / 2)"

definition zero_rnd :: "nat \<Rightarrow> rat" where
  "zero_rnd k = 0"

definition half_rnd :: "nat \<Rightarrow> rat" where
  "half_rnd k = 1 / 2"

text \<open>
  A page that rejects every address as reserved, and one that accepts the second
  address.
\<close>

definition reserved_env :: email_env where
  "reserved_env =
     \<lparr>env_error = (\<lambda>n. Some ''This domain is reserved.''),
      env_input = (\<lambda>n a. ''alice@outlook.com''),
      env_click = (\<lambda>n. True),
      env_generated = (\<lambda>n. ''bob@outlook.com''),
      env_suggestions = (\<lambda>n. NoContainer),
      env_errorStillVisible = (\<lambda>n. False),
      env_nextEnabled = (\<lambda>n. True),
      env_finalError = (\<lambda>n. False)\<rparr>"


text \<open>A page that accepts the address only after the fifth resubmission.\<close>

definition late_env :: email_env where
  "late_env =
     reserved_env\<lparr>env_error := (\<lambda>n. if n < 5 then Some ''This domain is reserved.'' else None)\<rparr>"

text \<open>A configuration asking for half a day.\<close>

definition half_days :: vacation_field where
  "half_days = VacObject \<lparr>raw_enabled = JBool True, raw_minDays = JNum (Fin (1 / 2)),
                            raw_maxDays = JNum (Fin (1 / 2))\<rparr>"

text \<open>
  Two reports that differ in time stamps, pointers, paths, line numbers and the context
  time stamp; two that differ in a path with a space in it; servers, a request and the
  outside at a clock reading.
\<close>

definition ann :: report where
  "ann =
     \<lparr>rp_error = ''TypeError: x is undefined at 2024-05-01T10:20:30.123Z ptr 0x1f3a'',
      rp_stack = Some ''at foo (/home/ann/bot.js:10:5)'',
      rp_context = [(''version'', ''1.0''), (''timestamp'', ''2024-05-01T10:20:30.123Z''),
                    (''platform'', ''linux'')],
      rp_additional = [(''b'', ''2''), (''a'', ''1'')]\<rparr>"

definition bob :: report where
  "bob =
     \<lparr>rp_error = ''TypeError: x is undefined at 2025-11-30T23:59:59.9Z ptr 0xABCDEF'',
      rp_stack = Some (''at foo (C:'' @ [CHR 0x5C] @ ''Users'' @ [CHR 0x5C] @ ''bob''
                        @ [CHR 0x5C] @ ''bot.js:22:7)''),
      rp_context = [(''version'', ''1.0''), (''timestamp'', ''2025-11-30T23:59:59.9Z''),
                    (''platform'', ''linux'')],
      rp_additional = [(''b'', ''2''), (''a'', ''1'')]\<rparr>"







section \<open>Properties\<close>

subsection \<open>Rounding to a double\<close>

lemma pow2_pos: "0 < pow2 e"
  by (simp add: pow2_def)

lemma round_even_ge: "of_int n \<le> y \<Longrightarrow> n \<le> round_even y"
proof -
  assume "of_int n \<le> y"
  then have "n \<le> \<lfloor>y\<rfloor>" by (simp add: le_floor_iff)
  then show ?thesis by (auto simp add: round_even_def Let_def)
qed

lemma round_even_le: "y \<le> of_int n \<Longrightarrow> round_even y \<le> n"
proof (cases "y = of_int n")
  case True
  then show ?thesis by (simp add: round_even_def Let_def)
next
  case False
  assume "y \<le> of_int n"
  with False have "y < of_int n" by simp
  then have "\<lfloor>y\<rfloor> < n" by (simp add: floor_less_iff)
  then show ?thesis by (auto simp add: round_even_def Let_def)
qed

lemma bitlen_le:
  assumes "0 < n" and "n < 2 ^ k"
  shows "bitlen n \<le> int k"
proof -
  from bitlen_bounds[OF assms(1)] have "(2 :: int) ^ nat (bitlen n - 1) \<le> n" by simp
  with assms(2) have "(2 :: int) ^ nat (bitlen n - 1) < 2 ^ k" by linarith
  then have "nat (bitlen n - 1) < k" by simp
  then show ?thesis by linarith
qed

lemma ilog2_le:
  assumes "0 < x" and "x < 2 ^ Suc c"
  shows "ilog2 x \<le> int c"
proof (cases "1 \<le> x")
  case True
  then have pos: "0 < \<lfloor>x\<rfloor>" by (simp add: floor_less_iff less_floor_iff)
  have "of_int \<lfloor>x\<rfloor> \<le> x" by (rule of_int_floor_le)
  with assms(2) have "(of_int \<lfloor>x\<rfloor> :: rat) < 2 ^ Suc c" by linarith
  then have "(of_int \<lfloor>x\<rfloor> :: rat) < of_int (2 ^ Suc c)" by simp
  then have "\<lfloor>x\<rfloor> < 2 ^ Suc c" by (simp only: of_int_less_iff)
  from bitlen_le[OF pos this] True show ?thesis by (simp add: ilog2_def)
next
  case False
  have "0 \<le> bitlen (\<lceil>1 / x\<rceil> - 1)" by (rule bitlen_nonneg)
  with False show ?thesis by (simp add: ilog2_def)
qed

lemma quantum:
  assumes "d \<le> 52" and "x \<noteq> 0" and "\<bar>x\<bar> < 2 ^ (53 - d)"
  shows "\<exists>j. d \<le> j \<and> pow2 (max (ilog2 \<bar>x\<bar> - 52) (- 1074)) = 1 / 2 ^ j"
proof -
  have "53 - d = Suc (52 - d)" using assms(1) by simp
  with assms have "ilog2 \<bar>x\<bar> \<le> int (52 - d)" using ilog2_le[of "\<bar>x\<bar>" "52 - d"] by simp
  then have k: "max (ilog2 \<bar>x\<bar> - 52) (- 1074) \<le> - int d" using assms(1) by simp
  define k where "k = max (ilog2 \<bar>x\<bar> - 52) (- 1074)"
  have "pow2 k = 1 / 2 ^ nat (- k)" using k unfolding k_def[symmetric]
    by (cases "k = 0") (simp_all add: pow2_def)
  moreover have "d \<le> nat (- k)" using k unfolding k_def[symmetric] by simp
  ultimately show ?thesis unfolding k_def by blast
qed

lemma binary64_ge:
  assumes "d \<le> 52" and "\<bar>x\<bar> < 2 ^ (53 - d)" and "of_int n / 2 ^ d \<le> x"
  shows "of_int n / 2 ^ d \<le> binary64 x"
proof (cases "x = 0")
  case True
  with assms(3) show ?thesis by (simp add: binary64_def)
next
  case False
  from quantum[OF assms(1) False assms(2)] obtain j where j: "d \<le> j"
    and q: "pow2 (max (ilog2 \<bar>x\<bar> - 52) (- 1074)) = 1 / 2 ^ j" by blast
  have b: "binary64 x = of_int (round_even (x * 2 ^ j)) / 2 ^ j"
    using False q by (simp add: binary64_def Let_def)
  have "(2 :: rat) ^ j = 2 ^ (j - d) * 2 ^ d" using j by (simp flip: power_add)
  then have e: "of_int n / 2 ^ d = (of_int (n * 2 ^ (j - d)) :: rat) / 2 ^ j" by simp
  have "of_int n / 2 ^ d * 2 ^ j \<le> x * (2 :: rat) ^ j"
    using assms(3) by (rule mult_right_mono) simp
  then have "(of_int (n * 2 ^ (j - d)) :: rat) \<le> x * 2 ^ j" using e by simp
  then have "n * 2 ^ (j - d) \<le> round_even (x * 2 ^ j)" by (rule round_even_ge)
  then have "(of_int (n * 2 ^ (j - d)) :: rat) \<le> of_int (round_even (x * 2 ^ j))"
    by (simp only: of_int_le_iff)
  then have "(of_int (n * 2 ^ (j - d)) :: rat) / 2 ^ j \<le> of_int (round_even (x * 2 ^ j)) / 2 ^ j"
    by (simp add: divide_right_mono)
  with e b show ?thesis by simp
qed

lemma binary64_le:
  assumes "d \<le> 52" and "\<bar>x\<bar> < 2 ^ (53 - d)" and "x \<le> of_int n / 2 ^ d"
  shows "binary64 x \<le> of_int n / 2 ^ d"
proof (cases "x = 0")
  case True
  with assms(3) show ?thesis by (simp add: binary64_def)
next
  case False
  from quantum[OF assms(1) False assms(2)] obtain j where j: "d \<le> j"
    and q: "pow2 (max (ilog2 \<bar>x\<bar> - 52) (- 1074)) = 1 / 2 ^ j" by blast
  have b: "binary64 x = of_int (round_even (x * 2 ^ j)) / 2 ^ j"
    using False q by (simp add: binary64_def Let_def)
  have "(2 :: rat) ^ j = 2 ^ (j - d) * 2 ^ d" using j by (simp flip: power_add)
  then have e: "of_int n / 2 ^ d = (of_int (n * 2 ^ (j - d)) :: rat) / 2 ^ j" by simp
  have "x * (2 :: rat) ^ j \<le> of_int n / 2 ^ d * 2 ^ j"
    using assms(3) by (rule mult_right_mono) simp
  then have "x * 2 ^ j \<le> (of_int (n * 2 ^ (j - d)) :: rat)" using e by simp
  then have "round_even (x * 2 ^ j) \<le> n * 2 ^ (j - d)" by (rule round_even_le)
  then have "(of_int (round_even (x * 2 ^ j)) :: rat) \<le> of_int (n * 2 ^ (j - d))"
    by (simp only: of_int_le_iff)
  then have "(of_int (round_even (x * 2 ^ j)) :: rat) / 2 ^ j \<le> of_int (n * 2 ^ (j - d)) / 2 ^ j"
    by (simp add: divide_right_mono)
  with e b show ?thesis by simp
qed

lemma binary64_exact:
  assumes "d \<le> 52" and "\<bar>of_int n / 2 ^ d :: rat\<bar> < 2 ^ (53 - d)"
  shows "binary64 (of_int n / 2 ^ d) = of_int n / 2 ^ d"
  using binary64_ge[OF assms, of n] binary64_le[OF assms, of n] by simp

text \<open>Rounding keeps a number between the whole numbers around it.\<close>

lemma binary64_between:
  assumes "of_int lo \<le> x" and "x \<le> of_int hi"
    and "\<bar>lo\<bar> < 2 ^ 53" and "\<bar>hi\<bar> < 2 ^ 53"
  shows "of_int lo \<le> binary64 x \<and> binary64 x \<le> of_int hi"
proof -
  have "\<bar>x\<bar> \<le> max \<bar>of_int lo\<bar> \<bar>of_int hi :: rat\<bar>" using assms(1,2) by linarith
  moreover have "\<bar>of_int lo :: rat\<bar> < 2 ^ 53" "\<bar>of_int hi :: rat\<bar> < 2 ^ 53"
    using assms(3,4) by (simp_all flip: of_int_abs add: of_int_less_numeral_power_cancel_iff)
  ultimately have m: "\<bar>x\<bar> < 2 ^ (53 - 0)" by simp
  from binary64_ge[of 0 x lo, OF _ m] binary64_le[of 0 x hi, OF _ m] assms(1,2)
  show ?thesis by simp
qed

lemma startsWith_iff: "startsWith s p \<longleftrightarrow> (\<exists>q. s = p @ q)"
  by (induction s p rule: startsWith.induct) auto

lemma str_includes_iff: "str_includes s sub \<longleftrightarrow> (\<exists>p q. s = p @ sub @ q)"
proof (induction s)
  case Nil
  then show ?case by auto
next
  case (Cons c cs)
  show ?case
  proof
    assume "str_includes (c # cs) sub"
    then consider "startsWith (c # cs) sub" | "str_includes cs sub" by auto
    then show "\<exists>p q. c # cs = p @ sub @ q"
    proof cases
      case 1
      then obtain q where "c # cs = sub @ q" by (auto simp: startsWith_iff)
      then have "c # cs = [] @ sub @ q" by simp
      then show ?thesis by blast
    next
      case 2
      then obtain p q where "cs = p @ sub @ q" using Cons.IH by blast
      then have "c # cs = (c # p) @ sub @ q" by simp
      then show ?thesis by blast
    qed
  next
    assume "\<exists>p q. c # cs = p @ sub @ q"
    then obtain p q where pq: "c # cs = p @ sub @ q" by blast
    show "str_includes (c # cs) sub"
    proof (cases p)
      case Nil
      with pq have "startsWith (c # cs) sub" by (auto simp: startsWith_iff)
      then show ?thesis by simp
    next
      case (Cons a p')
      with pq have "cs = p' @ sub @ q" by simp
      then have "str_includes cs sub" using Cons.IH by blast
      then show ?thesis by simp
    qed
  qed
qed

lemma str_includes_toLowerCase:
  assumes "str_includes s kw" and "toLowerCase kw = kw"
  shows "str_includes (toLowerCase s) kw"
proof -
  from assms(1) obtain p q where "s = p @ kw @ q" by (auto simp: str_includes_iff)
  then have "toLowerCase s = toLowerCase p @ toLowerCase kw @ toLowerCase q"
    by (simp add: toLowerCase_def)
  with assms(2) show ?thesis by (auto simp: str_includes_iff)
qed

subsection \<open>The exclusions of \<open>isLikelyTotpInput\<close>\<close>

lemma lower_kw:
  "toLowerCase ''loginfmt'' = ''loginfmt''" "toLowerCase ''passwd'' = ''passwd''"
  "toLowerCase ''email'' = ''email''" "toLowerCase ''login'' = ''login''"
  "toLowerCase ''password'' = ''password''" "toLowerCase ''timeout'' = ''timeout''"
  by (simp_all add: toLowerCase_def lower_char_def)

lemma likely_body_stale:
  "el_stale el \<Longrightarrow> \<exists>e. likely_body num pg el sel hint = Inl e"
  by (simp add: likely_body_def attr_def getAttribute_def bindE_def)

lemma likely_body_type:
  assumes "\<not> el_stale el"
    and "el_attr el ''type'' = Some ''password'' \<or> el_attr el ''type'' = Some ''email''"
  shows "likely_body num pg el sel hint = Inr False"
  using assms by (auto simp add: likely_body_def attr_def getAttribute_def bindE_def lower_kw)

lemma likely_body_name:
  assumes "\<not> el_stale el" and "el_attr el ''name'' = Some n"
    and "str_includes n ''loginfmt'' \<or> str_includes n ''passwd''
         \<or> str_includes n ''email'' \<or> str_includes n ''login''"
  shows "likely_body num pg el sel hint = Inr False"
proof -
  have "str_includes (toLowerCase n) ''loginfmt'' \<or> str_includes (toLowerCase n) ''passwd''
     \<or> str_includes (toLowerCase n) ''email'' \<or> str_includes (toLowerCase n) ''login''"
    using assms(3) str_includes_toLowerCase lower_kw by blast
  then show ?thesis using assms(1,2)
    by (simp add: likely_body_def attr_def getAttribute_def bindE_def)
qed

text \<open>
  C3. An input whose \<open>type\<close> attribute is \<open>password\<close> or \<open>email\<close>, or whose
  \<open>name\<close> attribute contains \<open>loginfmt\<close>, \<open>passwd\<close>, \<open>email\<close> or \<open>login\<close>,
  is never a likely TOTP input: \<open>isLikelyTotpInput\<close> returns false whatever the other
  attributes, the label, the selector, the page headings and the heading hint are.
\<close>

theorem isLikelyTotpInput_exclusions:
  assumes "el_attr el ''type'' = Some ''password'' \<or> el_attr el ''type'' = Some ''email''
     \<or> (\<exists>n. el_attr el ''name'' = Some n
          \<and> (str_includes n ''loginfmt'' \<or> str_includes n ''passwd''
             \<or> str_includes n ''email'' \<or> str_includes n ''login''))"
  shows "isLikelyTotpInput num pg (Some el) selector headingHint = False"
proof (cases "el_stale el")
  case True
  then obtain e where "likely_body num pg el selector headingHint = Inl e"
    using likely_body_stale by blast
  then show ?thesis by (simp add: isLikelyTotpInput_def)
next
  case False
  from assms have "likely_body num pg el selector headingHint = Inr False"
    using likely_body_type[OF False] likely_body_name[OF False] by blast
  then show ?thesis by (simp add: isLikelyTotpInput_def)
qed

theorem isLikelyTotpInput_exclusions_witness:
  "el_attr pw_field ''type'' = Some ''password'' \<and> el_attr pw_field ''name'' = Some ''otc''
   \<and> isLikelyTotpInput (\<lambda>_. Fin 6) blank_page (Some pw_field) sel_otc (Some ''Enter code'')
       = False"
  using isLikelyTotpInput_exclusions
    [of pw_field "\<lambda>_. Fin 6" blank_page sel_otc "Some ''Enter code''"]
  by (simp add: pw_field_def)

subsection \<open>The reveal loop of \<open>ensureTotpInput\<close>\<close>

lemma clicks_append [simp]: "clicks (a @ b) = clicks a + clicks b"
  by (simp add: clicks_def)

lemma clicks_simps [simp]:
  "clicks [] = 0" "clicks ((t, Click s) # tr) = Suc (clicks tr)"
  "clicks ((t, Wait n) # tr) = clicks tr"
  by (simp_all add: clicks_def)

lemma cfv_find:
  "clickFirstVisibleSelector br sels w =
     (case List.find (\<lambda>s. isVisible (pg_locate (br_view br w) s)) sels of
        None \<Rightarrow> (False, w, [])
      | Some s \<Rightarrow> (True, br_click br s w, [(br_now br w, Click s)]))"
  by (induction sels) auto

lemma reveal_step_disclosure:
  "reveal_step br w =
     (case disclosure br w of
        None \<Rightarrow> (False, w, [])
      | Some s \<Rightarrow>
          (True, br_wait br 900 (br_click br s w),
           [(br_now br w, Click s), (br_now br (br_click br s w), Wait 900)]))"
  by (simp add: reveal_step_def disclosure_def cfv_find split: option.splits)

lemma reveal_passes_append:
  "reveal_passes br num w [(t1, a1), (t2, a2)] \<Longrightarrow>
   reveal_passes br num (after br w [(t1, a1), (t2, a2)]) tr \<Longrightarrow>
   reveal_passes br num w ((t1, a1) # (t2, a2) # tr)"
  by (auto split: option.splits)

lemma reveal_loop_passes:
  assumes "reveal_loop br num k w = (r, w', t)"
    and "\<not> truthy (findFirstTotpInput num (br_view br w))"
  shows "reveal_passes br num w t \<and> w' = after br w t \<and> clicks t \<le> k
     \<and> (truthy (findFirstTotpInput num (br_view br w')) \<longrightarrow>
          r = findFirstTotpInput num (br_view br w'))
     \<and> (\<not> truthy (findFirstTotpInput num (br_view br w')) \<longrightarrow>
          r = None \<and> (clicks t < k \<longrightarrow> disclosure br w' = None))"
  using assms
proof (induction k arbitrary: w r w' t)
  case 0
  then show ?case by simp
next
  case (Suc k)
  show ?case
  proof (cases "disclosure br w")
    case None
    then have "reveal_step br w = (False, w, [])" by (simp add: reveal_step_disclosure)
    with Suc.prems have "r = None" "w' = w" "t = []" by (auto simp add: Let_def)
    with Suc.prems(2) None show ?thesis by simp
  next
    case (Some s)
    let ?w1 = "br_wait br 900 (br_click br s w)"
    let ?t1 = "[(br_now br w, Click s), (br_now br (br_click br s w), Wait 900)]"
    have st: "reveal_step br w = (True, ?w1, ?t1)"
      using Some by (simp add: reveal_step_disclosure)
    have p1: "reveal_passes br num w ?t1" using Some Suc.prems(2) by simp
    have a1: "after br w ?t1 = ?w1" by simp
    show ?thesis
    proof (cases "truthy (findFirstTotpInput num (br_view br ?w1))")
      case True
      with st Suc.prems(1) have "r = findFirstTotpInput num (br_view br ?w1)" "w' = ?w1" "t = ?t1"
        by (auto simp add: Let_def)
      with True p1 show ?thesis by simp
    next
      case False
      obtain r2 w2 t2 where rl: "reveal_loop br num k ?w1 = (r2, w2, t2)"
        by (cases "reveal_loop br num k ?w1") auto
      with st False Suc.prems(1) have eq: "r = r2" "w' = w2" "t = ?t1 @ t2"
        by (auto simp add: Let_def)
      note ih = Suc.IH[OF rl False]
      have "reveal_passes br num w t" using eq ih Some Suc.prems(2) by simp
      moreover have "w' = after br w t" using eq ih by simp
      moreover have "clicks t \<le> Suc k" using eq ih by simp
      ultimately show ?thesis using eq ih by auto
    qed
  qed
qed

lemma reveal_passes_length: "reveal_passes br num w t \<Longrightarrow> length t = 2 * clicks t"
  by (induction br num w t rule: reveal_passes.induct) (auto split: option.splits)

text \<open>
  C8. \<open>ensureTotpInput\<close> is a total function, so it terminates. When the input
  resolves at once it is returned with no action taken. Otherwise what it does is a run
  of at most 4 reveal passes: each pass is entered only with the input still unresolved,
  makes exactly one disclosure click followed by a wait of 900 ms, and the control
  clicked is the first visible \<open>other options\<close> control, or, when none of those is
  visible, the first visible \<open>use a code\<close> control. The selector returned is the one
  \<open>findFirstTotpInput\<close> resolves on the page as it is after the last pass; the result
  is null exactly when that page has no likely code input, and when fewer than 4 clicks
  were made the loop has stopped because the last pass found no control to click.
\<close>

theorem ensureTotpInput_bounded:
  assumes "ensureTotpInput br num w = (r, w', t)"
  shows "reveal_passes br num w t \<and> w' = after br w t
     \<and> clicks t \<le> 4 \<and> length t = 2 * clicks t
     \<and> (truthy (findFirstTotpInput num (br_view br w)) \<longrightarrow>
          r = findFirstTotpInput num (br_view br w) \<and> w' = w \<and> t = [])
     \<and> (truthy (findFirstTotpInput num (br_view br w')) \<longrightarrow>
          r = findFirstTotpInput num (br_view br w'))
     \<and> (\<not> truthy (findFirstTotpInput num (br_view br w')) \<longrightarrow>
          r = None \<and> (clicks t < 4 \<longrightarrow> disclosure br w' = None))"
proof (cases "truthy (findFirstTotpInput num (br_view br w))")
  case True
  with assms have "r = findFirstTotpInput num (br_view br w)" "w' = w" "t = []"
    by (auto simp add: ensureTotpInput_def)
  with True show ?thesis by simp
next
  case False
  with assms have rl: "reveal_loop br num 4 w = (r, w', t)" by (simp add: ensureTotpInput_def)
  note s = reveal_loop_passes[OF rl False]
  from s have "reveal_passes br num w t" by blast
  then have "length t = 2 * clicks t" by (rule reveal_passes_length)
  with s False show ?thesis by blast
qed

theorem ensureTotpInput_bounded_witness:
  "ensureTotpInput (demo_browser both_pages) no_num (0, 0) = (Some sel_otc, (2000, 2), reveal_trace)
   \<and> disclosure (demo_browser both_pages) (0, 0) = Some ''#idA_SAOTCC_AlternateLogin''
   \<and> reveal_passes (demo_browser both_pages) no_num (0, 0) reveal_trace
   \<and> clicks reveal_trace = 2
   \<and> findFirstTotpInput no_num (br_view (demo_browser both_pages) (2000, 2)) = Some sel_otc
   \<and> ensureTotpInput (demo_browser otc_pages) no_num (0, 0) = (Some sel_otc, (0, 0), [])
   \<and> ensureTotpInput (demo_browser stuck_pages) no_num (0, 0) = (None, (4000, 4), stuck_trace)
   \<and> clicks stuck_trace = 4
   \<and> reveal_passes (demo_browser stuck_pages) no_num (0, 0) stuck_trace
   \<and> ensureTotpInput (demo_browser blank_pages) no_num (0, 0) = (None, (0, 0), [])
   \<and> disclosure (demo_browser blank_pages) (0, 0) = None"
proof -
  have e1: "ensureTotpInput (demo_browser both_pages) no_num (0, 0)
              = (Some sel_otc, (2000, 2), reveal_trace)"
    by code_simp
  have d1: "disclosure (demo_browser both_pages) (0, 0) = Some ''#idA_SAOTCC_AlternateLogin''"
    by code_simp
  have e2: "ensureTotpInput (demo_browser otc_pages) no_num (0, 0) = (Some sel_otc, (0, 0), [])"
    by code_simp
  have e3: "ensureTotpInput (demo_browser blank_pages) no_num (0, 0) = (None, (0, 0), [])"
    by code_simp
  have e4: "ensureTotpInput (demo_browser stuck_pages) no_num (0, 0) = (None, (4000, 4), stuck_trace)"
    by code_simp
  have c1: "clicks reveal_trace = 2" by code_simp
  have c4: "clicks stuck_trace = 4" by code_simp
  have p1: "reveal_passes (demo_browser both_pages) no_num (0, 0) reveal_trace"
    using ensureTotpInput_bounded[OF e1] by blast
  have f1: "findFirstTotpInput no_num (br_view (demo_browser both_pages) (2000, 2)) = Some sel_otc"
  proof -
    let ?f = "findFirstTotpInput no_num (br_view (demo_browser both_pages) (2000, 2))"
    from ensureTotpInput_bounded[OF e1]
    have a: "truthy ?f \<longrightarrow> Some sel_otc = ?f" and b: "\<not> truthy ?f \<longrightarrow> Some sel_otc = None"
      by blast+
    show ?thesis using a b by (cases "truthy ?f") auto
  qed
  have p4: "reveal_passes (demo_browser stuck_pages) no_num (0, 0) stuck_trace"
    using ensureTotpInput_bounded[OF e4] by blast
  have f3: "disclosure (demo_browser blank_pages) (0, 0) = None"
  proof -
    let ?f = "findFirstTotpInput no_num (br_view (demo_browser blank_pages) (0, 0))"
    have n: "\<not> truthy ?f" by code_simp
    have c: "clicks ([] :: trace) < 4" by simp
    from ensureTotpInput_bounded[OF e3] n c show ?thesis by blast
  qed
  show ?thesis by (intro conjI) (rule e1 d1 p1 c1 f1 e2 e4 c4 p4 e3 f3)+
qed

subsection \<open>The throttle of \<open>tryAutoTotp\<close>\<close>

lemma submission_times_append [simp]:
  "submission_times (a @ b) = submission_times a @ submission_times b"
  by (induction a rule: submission_times.induct) auto

lemma cfv_now:
  "clock_mono br \<Longrightarrow> clickFirstVisibleSelector br sels w = (a, w1, t) \<Longrightarrow>
     br_now br w \<le> br_now br w1 \<and> submission_times t = []"
  by (induction sels) (auto simp add: clock_mono_def split: if_splits)

lemma reveal_step_now:
  assumes "clock_mono br" and "reveal_step br w = (a, w1, t)"
  shows "br_now br w \<le> br_now br w1 \<and> submission_times t = []"
proof -
  obtain a1 u1 t1 where c1: "clickFirstVisibleSelector br sel_altOptions w = (a1, u1, t1)"
    by (cases "clickFirstVisibleSelector br sel_altOptions w") auto
  obtain a2 u2 t2 where c2: "clickFirstVisibleSelector br sel_challenge u1 = (a2, u2, t2)"
    by (cases "clickFirstVisibleSelector br sel_challenge u1") auto
  have n1: "br_now br w \<le> br_now br u1" "submission_times t1 = []"
    using cfv_now[OF assms(1) c1] by auto
  have n2: "br_now br u1 \<le> br_now br u2" "submission_times t2 = []"
    using cfv_now[OF assms(1) c2] by auto
  have w1: "br_now br u1 \<le> br_now br (br_wait br 900 u1)"
    "br_now br u2 \<le> br_now br (br_wait br 900 u2)"
    using assms(1) by (auto simp add: clock_mono_def)
  show ?thesis
    using assms(2) c1 c2 n1 n2 w1
    by (cases a1; cases a2) (auto simp add: reveal_step_def)
qed

lemma reveal_loop_now:
  assumes "clock_mono br"
  shows "reveal_loop br num k w = (r, w', t) \<Longrightarrow>
     br_now br w \<le> br_now br w' \<and> submission_times t = []"
proof (induction k arbitrary: w r w' t)
  case 0
  then show ?case by simp
next
  case (Suc k)
  obtain a w1 t1 where st: "reveal_step br w = (a, w1, t1)"
    by (cases "reveal_step br w") auto
  obtain r2 w2 t2 where rl: "reveal_loop br num k w1 = (r2, w2, t2)"
    by (cases "reveal_loop br num k w1") auto
  from reveal_step_now[OF assms st] Suc.IH[OF rl] Suc.prems st rl
  show ?case by (auto simp add: Let_def split: if_splits)
qed

lemma ensure_now:
  assumes "clock_mono br" and "ensureTotpInput br num w = (r, w', t)"
  shows "br_now br w \<le> br_now br w' \<and> submission_times t = []"
  using assms reveal_loop_now[OF assms(1), of num 4 w r w' t]
  by (auto simp add: ensureTotpInput_def Let_def split: if_splits)

lemma submit_now:
  assumes "clock_mono br" and "submitTotpCode br w sel secret = (w2, t2)"
  shows "br_now br w \<le> br_now br w2
     \<and> (submission_times t2 = [] \<or> submission_times t2 = [br_now br w])"
proof -
  have m: "\<And>s c u. br_now br u \<le> br_now br (br_type br s c u)"
    "\<And>s u. br_now br u \<le> br_now br (br_click br s u)"
    "\<And>k u. br_now br u \<le> br_now br (snd (br_press br k u))"
    using assms(1) by (auto simp add: clock_mono_def)
  show ?thesis
    using assms(2) m(1)[of w sel] 
    by (auto simp add: submitTotpCode_def Let_def split: sum.splits if_splits option.splits
        intro: order_trans[OF m(1) m(2)] order_trans[OF m(1) m(3)])
qed

lemma tryAutoTotp_throttled:
  "br_now br w - lastTotpSubmit st < 5000 \<Longrightarrow>
     tryAutoTotp br num st w context secretArg = (Inr False, st, w, [])"
  by (simp add: tryAutoTotp_def Let_def)

lemma tryAutoTotp_step:
  assumes "clock_mono br" and "tryAutoTotp br num st w context secretArg = (r, st', w', t)"
  shows "lastTotpSubmit st \<le> lastTotpSubmit st'
     \<and> (\<forall>x \<in> set (submission_times t).
            lastTotpSubmit st + 5000 \<le> x \<and> x \<le> lastTotpSubmit st')
     \<and> length (submission_times t) \<le> 1"
proof -
  let ?secret = "if truthy secretArg then secretArg else currentTotpSecret st"
  obtain sel w1 t1 where en: "ensureTotpInput br num w = (sel, w1, t1)"
    by (cases "ensureTotpInput br num w") auto
  obtain w2 t2 where su: "submitTotpCode br w1 (the sel) (the ?secret) = (w2, t2)"
    by (cases "submitTotpCode br w1 (the sel) (the ?secret)") auto
  have e: "br_now br w \<le> br_now br w1" "submission_times t1 = []"
    using ensure_now[OF assms(1) en] by auto
  have s: "br_now br w1 \<le> br_now br w2"
    "submission_times t2 = [] \<or> submission_times t2 = [br_now br w1]"
    using submit_now[OF assms(1) su] by auto
  show ?thesis
  proof (cases "truthy ?secret \<and> \<not> br_now br w - lastTotpSubmit st < 5000
                 \<and> truthy sel \<and> \<not> totpAttempts st \<ge> 3")
    case True
    then have "st' = st\<lparr>totpAttempts := totpAttempts st + 1, lastTotpSubmit := br_now br w2\<rparr>"
      and "submission_times t = submission_times t2"
      using assms(2) en su e(2) by (auto simp add: tryAutoTotp_def Let_def)
    then show ?thesis using True e(1) s by auto
  next
    case False
    then have "st' = st" and "submission_times t = []"
      using assms(2) en e(2) by (auto simp add: tryAutoTotp_def Let_def split: if_splits)
    then show ?thesis by simp
  qed
qed

lemma run_calls_spaced:
  assumes "clock_mono br"
  shows "run_calls br num st w cs = (st', w', t) \<Longrightarrow>
     lastTotpSubmit st \<le> lastTotpSubmit st'
     \<and> (\<forall>x \<in> set (submission_times t).
            lastTotpSubmit st + 5000 \<le> x \<and> x \<le> lastTotpSubmit st')
     \<and> sorted_wrt (\<lambda>a b. a + 5000 \<le> b) (submission_times t)"
proof (induction cs arbitrary: st w st' w' t)
  case Nil
  then show ?case by simp
next
  case (Cons c cs)
  obtain f ctx secretArg where c: "c = (f, ctx, secretArg)" by (cases c) auto
  obtain r st1 w1 t1 where one: "tryAutoTotp br num st (f w) ctx secretArg = (r, st1, w1, t1)"
    by (cases "tryAutoTotp br num st (f w) ctx secretArg") auto
  obtain st2 w2 t2 where rest: "run_calls br num st1 w1 cs = (st2, w2, t2)"
    by (cases "run_calls br num st1 w1 cs") auto
  from Cons.prems c one rest have eq: "st' = st2" "t = t1 @ t2" by auto
  note h = tryAutoTotp_step[OF assms one]
  note ih = Cons.IH[OF rest]
  have "sorted_wrt (\<lambda>a b. a + 5000 \<le> b) (submission_times t1)"
    using h by (cases "submission_times t1") auto
  moreover have "\<forall>a \<in> set (submission_times t1). \<forall>b \<in> set (submission_times t2). a + 5000 \<le> b"
    using h ih by fastforce
  ultimately have "sorted_wrt (\<lambda>a b. a + 5000 \<le> b) (submission_times t)"
    using ih eq by (simp add: sorted_wrt_append)
  moreover have "\<forall>x \<in> set (submission_times t).
            lastTotpSubmit st + 5000 \<le> x \<and> x \<le> lastTotpSubmit st'"
    using h ih eq by fastforce
  ultimately show ?case using h ih eq by auto
qed

lemma demo_clock: "clock_mono (demo_browser pages)"
  by (simp add: clock_mono_def demo_browser_def)

text \<open>
  C1. A call to \<open>tryAutoTotp\<close> made less than 5000 ms after \<open>lastTotpSubmit\<close>
  returns false, takes no action and leaves the handler unchanged. Hence, over any
  sequence of calls during which the clock does not run backwards, any two typings of
  a code are at least 5000 ms apart: at most one submission per 5-second window.
\<close>

theorem tryAutoTotp_throttle:
  "(br_now br w - lastTotpSubmit st < 5000 \<longrightarrow>
      tryAutoTotp br num st w context secretArg = (Inr False, st, w, []))
   \<and> (clock_mono br \<longrightarrow>
      sorted_wrt (\<lambda>a b. a + 5000 \<le> b)
        (submission_times (snd (snd (run_calls br num st w cs)))))"
proof -
  have "sorted_wrt (\<lambda>a b. a + 5000 \<le> b)
        (submission_times (snd (snd (run_calls br num st w cs))))" if "clock_mono br"
    using run_calls_spaced[OF that, of num st w cs] by (cases "run_calls br num st w cs") auto
  then show ?thesis by (simp add: tryAutoTotp_throttled)
qed

theorem tryAutoTotp_throttle_witness:
  "br_now (demo_browser otc_pages) (11510, 0) - lastTotpSubmit once_state < 5000
   \<and> tryAutoTotp (demo_browser otc_pages) no_num once_state (11510, 0) ''second'' None
       = (Inr False, once_state, (11510, 0), [])
   \<and> clock_mono (demo_browser otc_pages)
   \<and> submission_times
        (snd (snd (run_calls (demo_browser otc_pages) no_num secret_state (10000, 0) hasty_calls)))
       = [10000, 15510]
   \<and> sorted_wrt (\<lambda>a b. a + 5000 \<le> b) [10000, 15510 :: int]"
proof -
  have h: "br_now (demo_browser otc_pages) (11510, 0) - lastTotpSubmit once_state < 5000"
    by (simp add: demo_browser_def once_state_def)
  have r: "submission_times
        (snd (snd (run_calls (demo_browser otc_pages) no_num secret_state (10000, 0) hasty_calls)))
       = [10000, 15510]"
    by code_simp
  have a: "tryAutoTotp (demo_browser otc_pages) no_num once_state (11510, 0) ''second'' None
       = (Inr False, once_state, (11510, 0), [])"
    using h tryAutoTotp_throttle
      [where br = "demo_browser otc_pages" and w = "(11510, 0)" and st = once_state]
    by simp
  have b: "sorted_wrt (\<lambda>a b. a + 5000 \<le> b) [10000, 15510 :: int]"
    using demo_clock[of otc_pages] r tryAutoTotp_throttle
      [where br = "demo_browser otc_pages" and w = "(10000, 0)" and st = secret_state
         and num = no_num and cs = hasty_calls]
    by simp
  show ?thesis by (intro conjI) (rule h a demo_clock r b)+
qed

subsection \<open>The attempt limit of \<open>tryAutoTotp\<close>\<close>

lemma cfv_quiet:
  "clickFirstVisibleSelector br sels w = (a, w1, t) \<Longrightarrow> submission_times t = []"
  by (induction sels) (auto split: if_splits)

lemma reveal_step_quiet:
  assumes "reveal_step br w = (a, w1, t)"
  shows "submission_times t = []"
proof -
  obtain a1 u1 t1 where c1: "clickFirstVisibleSelector br sel_altOptions w = (a1, u1, t1)"
    by (cases "clickFirstVisibleSelector br sel_altOptions w") auto
  obtain a2 u2 t2 where c2: "clickFirstVisibleSelector br sel_challenge u1 = (a2, u2, t2)"
    by (cases "clickFirstVisibleSelector br sel_challenge u1") auto
  show ?thesis
    using assms c1 c2 cfv_quiet[OF c1] cfv_quiet[OF c2]
    by (cases a1; cases a2) (auto simp add: reveal_step_def)
qed

lemma reveal_loop_quiet:
  "reveal_loop br num k w = (r, w', t) \<Longrightarrow> submission_times t = []"
proof (induction k arbitrary: w r w' t)
  case 0
  then show ?case by simp
next
  case (Suc k)
  obtain a w1 t1 where st: "reveal_step br w = (a, w1, t1)"
    by (cases "reveal_step br w") auto
  obtain r2 w2 t2 where rl: "reveal_loop br num k w1 = (r2, w2, t2)"
    by (cases "reveal_loop br num k w1") auto
  from reveal_step_quiet[OF st] Suc.IH[OF rl] Suc.prems st rl
  show ?case by (auto simp add: Let_def split: if_splits)
qed

lemma ensure_quiet:
  assumes "ensureTotpInput br num w = (r, w', t)"
  shows "submission_times t = []"
  using assms reveal_loop_quiet[of br num 4 w r w' t]
  by (auto simp add: ensureTotpInput_def Let_def split: if_splits)

lemma tryAutoTotp_counts:
  assumes "tryAutoTotp br num st w c secretArg = (r, st', w', t)"
  shows "(r = Inr True \<longrightarrow> totpAttempts st' = totpAttempts st + 1 \<and> totpAttempts st < 3)
     \<and> (r \<noteq> Inr True \<longrightarrow> st' = st \<and> submission_times t = [])"
proof -
  obtain sel w1 t1 where en: "ensureTotpInput br num w = (sel, w1, t1)"
    by (cases "ensureTotpInput br num w") auto
  show ?thesis
    using assms en ensure_quiet[OF en]
    by (auto simp add: tryAutoTotp_def Let_def split: if_splits prod.splits)
qed

lemma tryAutoTotp_throws:
  assumes "3 \<le> totpAttempts st"
    and "truthy (if truthy secretArg then secretArg else currentTotpSecret st)"
    and "5000 \<le> br_now br w - lastTotpSubmit st"
    and "ensureTotpInput br num w = (sel, w1, t1)" and "truthy sel"
  shows "tryAutoTotp br num st w c secretArg
     = (Inl (Error totp_errMsg), st, w1, t1 @ [(br_now br w1, Log ''error'' totp_errMsg)])"
  using assms by (simp add: tryAutoTotp_def Let_def)

lemma errMsg_distinct:
  "totp_errMsg \<noteq> timeout_errMsg" "\<not> str_includes totp_errMsg ''timeout''"
  by (simp_all add: totp_errMsg_def timeout_errMsg_def)

text \<open>
  C2. \<open>totpAttempts\<close> counts the automatic submissions: a call that returns true
  raises it by one and happens only below 3; any other call leaves the handler
  unchanged and types nothing. With 3 attempts made, a secret, the throttle passed and
  the code input still resolvable, \<open>tryAutoTotp\<close> throws the error
  \<open>totp_errMsg\<close> instead of submitting; \<open>handleSMSOrTotp\<close>, which calls it outside
  its own \<open>try\<close>, lets the error through without opening the manual prompt. The
  message differs from the manual-entry timeout message and does not contain
  \<open>timeout\<close>, the word by which the timeout error is recognised.
\<close>

theorem tryAutoTotp_gives_up:
  "(case tryAutoTotp br num st w c secretArg of
      (r, st', w', t) \<Rightarrow>
        (r = Inr True \<longrightarrow> totpAttempts st' = totpAttempts st + 1 \<and> totpAttempts st < 3)
        \<and> (r \<noteq> Inr True \<longrightarrow> st' = st \<and> submission_times t = []))
   \<and> (3 \<le> totpAttempts st
        \<and> truthy (if truthy secretArg then secretArg else currentTotpSecret st)
        \<and> 5000 \<le> br_now br w - lastTotpSubmit st
        \<and> truthy (fst (ensureTotpInput br num w)) \<longrightarrow>
        fst (tryAutoTotp br num st w c secretArg) = Inl (Error totp_errMsg)
        \<and> (secretArg = currentTotpSecret st \<longrightarrow>
             fst (handleSMSOrTotp br num st w answer) = Inl (Error totp_errMsg)
             \<and> snd (snd (snd (snd (handleSMSOrTotp br num st w answer)))) = None))
   \<and> totp_errMsg \<noteq> timeout_errMsg \<and> \<not> str_includes totp_errMsg ''timeout''"
proof -
  have a: "case tryAutoTotp br num st w c secretArg of
      (r, st', w', t) \<Rightarrow>
        (r = Inr True \<longrightarrow> totpAttempts st' = totpAttempts st + 1 \<and> totpAttempts st < 3)
        \<and> (r \<noteq> Inr True \<longrightarrow> st' = st \<and> submission_times t = [])"
    using tryAutoTotp_counts[of br num st w c secretArg]
    by (cases "tryAutoTotp br num st w c secretArg") simp
  have b: "fst (tryAutoTotp br num st w c secretArg) = Inl (Error totp_errMsg)
        \<and> (secretArg = currentTotpSecret st \<longrightarrow>
             fst (handleSMSOrTotp br num st w answer) = Inl (Error totp_errMsg)
             \<and> snd (snd (snd (snd (handleSMSOrTotp br num st w answer)))) = None)"
    if h: "3 \<le> totpAttempts st"
      "truthy (if truthy secretArg then secretArg else currentTotpSecret st)"
      "5000 \<le> br_now br w - lastTotpSubmit st"
      "truthy (fst (ensureTotpInput br num w))"
  proof -
    obtain sel w1 t1 where en: "ensureTotpInput br num w = (sel, w1, t1)"
      by (cases "ensureTotpInput br num w") auto
    with h(4) have ts: "truthy sel" by simp
    have t: "tryAutoTotp br num st w c' secretArg
       = (Inl (Error totp_errMsg), st, w1, t1 @ [(br_now br w1, Log ''error'' totp_errMsg)])"
      for c' using tryAutoTotp_throws[OF h(1,2,3) en ts] .
    have "fst (handleSMSOrTotp br num st w answer) = Inl (Error totp_errMsg)
        \<and> snd (snd (snd (snd (handleSMSOrTotp br num st w answer)))) = None"
      if "secretArg = currentTotpSecret st"
    proof -
      from t[of "''manual 2FA entry''"] that
      have "tryAutoTotp br num st w ''manual 2FA entry'' (currentTotpSecret st)
        = (Inl (Error totp_errMsg), st, w1, t1 @ [(br_now br w1, Log ''error'' totp_errMsg)])"
        by simp
      then show ?thesis by (simp add: handleSMSOrTotp_def)
    qed
    then show ?thesis using t[of c] by simp
  qed
  show ?thesis using a b errMsg_distinct by blast
qed

theorem tryAutoTotp_gives_up_witness:
  "fst (run_calls (demo_browser otc_pages) no_num secret_state (10000, 0) patient_calls)
     = thrice_state
   \<and> 3 \<le> totpAttempts thrice_state
   \<and> 5000 \<le> br_now (demo_browser otc_pages) (30000, 0) - lastTotpSubmit thrice_state
   \<and> truthy (fst (ensureTotpInput (demo_browser otc_pages) no_num (30000, 0)))
   \<and> fst (tryAutoTotp (demo_browser otc_pages) no_num thrice_state (30000, 0) ''fourth''
            (currentTotpSecret thrice_state)) = Inl (Error totp_errMsg)
   \<and> fst (handleSMSOrTotp (demo_browser otc_pages) no_num thrice_state (30000, 0) None)
       = Inl (Error totp_errMsg)
   \<and> fst (tryAutoTotp (demo_browser otc_pages) no_num secret_state (10000, 0) ''first'' None)
       = Inr True
   \<and> totpAttempts (fst (snd (tryAutoTotp (demo_browser otc_pages) no_num secret_state
                                  (10000, 0) ''first'' None))) = totpAttempts secret_state + 1"
proof -
  have r: "fst (run_calls (demo_browser otc_pages) no_num secret_state (10000, 0) patient_calls)
     = thrice_state"
    by code_simp
  have h1: "3 \<le> totpAttempts thrice_state" by (simp add: thrice_state_def)
  have h2: "truthy (if truthy (currentTotpSecret thrice_state) then currentTotpSecret thrice_state
                   else currentTotpSecret thrice_state)"
    by (simp add: thrice_state_def)
  have h3: "5000 \<le> br_now (demo_browser otc_pages) (30000, 0) - lastTotpSubmit thrice_state"
    by (simp add: demo_browser_def thrice_state_def)
  have h4: "truthy (fst (ensureTotpInput (demo_browser otc_pages) no_num (30000, 0)))"
    by code_simp
  note g = tryAutoTotp_gives_up
      [where br = "demo_browser otc_pages" and num = no_num and st = thrice_state
         and w = "(30000, 0)" and c = "''fourth''"
         and secretArg = "currentTotpSecret thrice_state" and answer = None]
  from g h1 h2 h3 h4
  have a: "fst (tryAutoTotp (demo_browser otc_pages) no_num thrice_state (30000, 0) ''fourth''
            (currentTotpSecret thrice_state)) = Inl (Error totp_errMsg)"
    and b: "fst (handleSMSOrTotp (demo_browser otc_pages) no_num thrice_state (30000, 0) None)
       = Inl (Error totp_errMsg)"
    by blast+
  have t: "fst (tryAutoTotp (demo_browser otc_pages) no_num secret_state (10000, 0) ''first'' None)
       = Inr True"
    by code_simp
  note g1 = tryAutoTotp_gives_up
      [where br = "demo_browser otc_pages" and num = no_num and st = secret_state
         and w = "(10000, 0)" and c = "''first''" and secretArg = None]
  have u: "totpAttempts (fst (snd (tryAutoTotp (demo_browser otc_pages) no_num secret_state
                                  (10000, 0) ''first'' None))) = totpAttempts secret_state + 1"
    using g1 t
    by (cases "tryAutoTotp (demo_browser otc_pages) no_num secret_state (10000, 0) ''first'' None")
       simp
  show ?thesis by (intro conjI) (rule r h1 h3 h4 a b t u)+
qed

subsection \<open>The manual prompt of \<open>handleSMSOrTotp\<close>\<close>

lemma actions_simps [simp]:
  "actions [] = {}" "actions (e # t) = insert (snd e) (actions t)"
  "actions (t @ u) = actions t \<union> actions u"
  by (auto simp add: actions_def)

lemma prompt_race_late:
  "answer_in_time answer = None \<Longrightarrow>
     prompt_race answer
       = (Inl (Error timeout_errMsg), 120000, \<lparr>rl_open = False, timer_pending = False\<rparr>)"
  by (auto simp add: answer_in_time_def prompt_race_def rl_close_def timer_fired_def Let_def
      split: option.splits if_splits)

lemma prompt_race_answered:
  "answer_in_time answer = Some (d, line) \<Longrightarrow>
     prompt_race answer
       = (Inr (trim line), d, \<lparr>rl_open = False, timer_pending = False\<rparr>)"
  by (auto simp add: answer_in_time_def prompt_race_def rl_close_def clearTimeout_def Let_def
      split: option.splits if_splits)

lemma prompt_catch_timeout:
  "prompt_catch t (Error timeout_errMsg) = (Inl (Error timeout_errMsg), [(t, Log ''error'' afk_logMsg)])"
  by (simp add: prompt_catch_def message_def timeout_errMsg_def)

text \<open>
  C4 (amended). When the automatic path is not used (\<open>tryAutoTotp\<close> returns false),
  the manual prompt waits for the operator for at most 120 s. In every case the
  readline interface ends closed and no timer is pending. Without a line in time the
  handler throws the error \<open>2FA code input timeout after 120s\<close> and logs it as AFK,
  typing nothing. With a line in time, the trimmed line is typed into the code input
  and Enter is pressed if that input is still visible; if it is not, nothing is typed
  and the handler returns.
\<close>

theorem handleSMSOrTotp_manual:
  assumes "tryAutoTotp br num st w ''manual 2FA entry'' (currentTotpSecret st)
             = (Inr False, st1, w1, t1)"
  shows "case handleSMSOrTotp br num st w answer of
      (r, st', w', t, ps) \<Rightarrow>
        st' = st1 \<and> ps = Some \<lparr>rl_open = False, timer_pending = False\<rparr>
        \<and> (case answer_in_time answer of
              None \<Rightarrow>
                r = Inl (Error timeout_errMsg) \<and> Log ''error'' afk_logMsg \<in> actions t
                \<and> submission_times t = submission_times t1
            | Some (d, line) \<Rightarrow>
                if isVisible (pg_locate (br_view br (br_wait br d w1)) sel_otc)
                then TypeCode sel_otc (trim line) \<in> actions t \<and> Press ''Enter'' \<in> actions t
                else r = Inr () \<and> submission_times t = submission_times t1)"
proof (cases "answer_in_time answer")
  case None
  show ?thesis
    using assms None prompt_race_late[OF None]
    by (simp add: handleSMSOrTotp_def prompt_catch_timeout rl_close_def Let_def)
next
  case (Some a)
  obtain d line where a: "a = (d, line)" by (cases a) auto
  have pr: "prompt_race answer
       = (Inr (trim line), d, \<lparr>rl_open = False, timer_pending = False\<rparr>)"
    using Some a prompt_race_answered by simp
  show ?thesis
  proof (cases "isVisible (pg_locate (br_view br (br_wait br d w1)) sel_otc)")
    case False
    then show ?thesis
      using assms Some a pr by (simp add: handleSMSOrTotp_def rl_close_def Let_def)
  next
    case True
    obtain e w4 where p: "br_press br ''Enter'' (br_type br sel_otc (trim line) (br_wait br d w1)) = (e, w4)"
      by (cases "br_press br ''Enter'' (br_type br sel_otc (trim line) (br_wait br d w1))") auto
    show ?thesis
      using assms Some a pr True p
      by (cases e) (auto simp add: handleSMSOrTotp_def rl_close_def Let_def split: prod.splits)
  qed
qed

theorem handleSMSOrTotp_manual_witness:
  "tryAutoTotp (demo_browser otc_pages) no_num init_state (0, 0) ''manual 2FA entry''
      (currentTotpSecret init_state) = (Inr False, init_state, (0, 0), [])
   \<and> answer_in_time None = None
   \<and> fst (handleSMSOrTotp (demo_browser otc_pages) no_num init_state (0, 0) None)
       = Inl (Error timeout_errMsg)
   \<and> snd (snd (snd (snd (handleSMSOrTotp (demo_browser otc_pages) no_num init_state (0, 0) None))))
       = Some \<lparr>rl_open = False, timer_pending = False\<rparr>
   \<and> answer_in_time (Some (1000, '' 123456 '')) = Some (1000, '' 123456 '')
   \<and> isVisible (pg_locate (br_view (demo_browser otc_pages)
                                 (br_wait (demo_browser otc_pages) 1000 (0, 0))) sel_otc)
   \<and> TypeCode sel_otc ''123456''
       \<in> actions (fst (snd (snd (snd (handleSMSOrTotp (demo_browser otc_pages) no_num init_state
                                          (0, 0) (Some (1000, '' 123456 '')))))))
   \<and> snd (snd (snd (snd (handleSMSOrTotp (demo_browser otc_pages) no_num init_state (0, 0)
                             (Some (1000, '' 123456 ''))))))
       = Some \<lparr>rl_open = False, timer_pending = False\<rparr>"
proof -
  let ?B = "demo_browser otc_pages"
  have h: "tryAutoTotp ?B no_num init_state (0, 0) ''manual 2FA entry''
      (currentTotpSecret init_state) = (Inr False, init_state, (0, 0), [])"
    by (simp add: tryAutoTotp_def init_state_def)
  have n: "answer_in_time None = None" by (simp add: answer_in_time_def)
  have y: "answer_in_time (Some (1000, '' 123456 '')) = Some (1000, '' 123456 '')"
    by (simp add: answer_in_time_def)
  have v: "isVisible (pg_locate (br_view ?B (br_wait ?B 1000 (0, 0))) sel_otc)"
    by (simp add: demo_browser_def otc_pages_def page_with_def isVisible_def otc_field_def)
  have tr: "trim '' 123456 '' = ''123456''" by code_simp
  have a: "fst (handleSMSOrTotp ?B no_num init_state (0, 0) None) = Inl (Error timeout_errMsg)"
    using handleSMSOrTotp_manual[OF h, of None] n
    by (cases "handleSMSOrTotp ?B no_num init_state (0, 0) None") simp
  have b: "snd (snd (snd (snd (handleSMSOrTotp ?B no_num init_state (0, 0) None))))
       = Some \<lparr>rl_open = False, timer_pending = False\<rparr>"
    using handleSMSOrTotp_manual[OF h, of None] n
    by (cases "handleSMSOrTotp ?B no_num init_state (0, 0) None") simp
  have c: "TypeCode sel_otc ''123456''
       \<in> actions (fst (snd (snd (snd (handleSMSOrTotp ?B no_num init_state
                                          (0, 0) (Some (1000, '' 123456 '')))))))"
    using handleSMSOrTotp_manual[OF h, of "Some (1000, '' 123456 '')"] y v tr
    by (cases "handleSMSOrTotp ?B no_num init_state (0, 0) (Some (1000, '' 123456 ''))") simp
  have d: "snd (snd (snd (snd (handleSMSOrTotp ?B no_num init_state (0, 0)
                             (Some (1000, '' 123456 ''))))))
       = Some \<lparr>rl_open = False, timer_pending = False\<rparr>"
    using handleSMSOrTotp_manual[OF h, of "Some (1000, '' 123456 '')"] y
    by (cases "handleSMSOrTotp ?B no_num init_state (0, 0) (Some (1000, '' 123456 ''))") simp
  show ?thesis by (intro conjI) (rule h n a b y v c d)+
qed

text \<open>
  The claim as first stated promises that a line entered in time is typed and submitted.
  On a page whose code input is gone when the line arrives, nothing is typed.
\<close>

lemma manual_timeout:
  assumes "tryAutoTotp br num st w ''manual 2FA entry'' (currentTotpSecret st)
             = (Inr False, st1, w1, t1)"
    and "answer_in_time answer = None"
  shows "handleSMSOrTotp br num st w answer
     = (Inl (Error timeout_errMsg), st1, br_wait br 120000 w1,
        t1 @ [(br_now br w1, Log ''log'' ''Waiting for user 2FA code (SMS / Email / App fallback)''),
              (br_now br (br_wait br 120000 w1), Log ''error'' afk_logMsg)],
        Some \<lparr>rl_open = False, timer_pending = False\<rparr>)"
  using assms prompt_race_late[OF assms(2)]
  by (simp add: handleSMSOrTotp_def prompt_catch_timeout rl_close_def Let_def)

lemma manual_hidden:
  assumes "tryAutoTotp br num st w ''manual 2FA entry'' (currentTotpSecret st)
             = (Inr False, st1, w1, t1)"
    and "answer_in_time answer = Some (d, line)"
    and "\<not> isVisible (pg_locate (br_view br (br_wait br d w1)) sel_otc)"
  shows "handleSMSOrTotp br num st w answer
     = (Inr (), st1, br_wait br d w1,
        t1 @ [(br_now br w1, Log ''log'' ''Waiting for user 2FA code (SMS / Email / App fallback)''),
              (br_now br (br_wait br d w1),
               Log ''warn'' ''Page changed while waiting for code (user progressed manually)'')],
        Some \<lparr>rl_open = False, timer_pending = False\<rparr>)"
  using assms prompt_race_answered[OF assms(2)]
  by (simp add: handleSMSOrTotp_def rl_close_def Let_def)

lemma blank_no_auto: "tryAutoTotp (demo_browser blank_pages) no_num init_state (0, 0) ''manual 2FA entry''
      (currentTotpSecret init_state) = (Inr False, init_state, (0, 0), [])"
  by code_simp

lemma answer_1000_in_time: "answer_in_time (Some (1000, ''123456'')) = Some (1000, ''123456'')"
  by (simp add: answer_in_time_def)

lemma blank_otc_hidden: "\<not> isVisible (pg_locate (br_view (demo_browser blank_pages)
                   (br_wait (demo_browser blank_pages) 1000 (0, 0))) sel_otc)"
  by (simp add: demo_browser_def blank_pages_def blank_page_def isVisible_def)

theorem handleSMSOrTotp_claim_counterexample:
  "\<not> truthy (currentTotpSecret init_state)
   \<and> answer_in_time (Some (1000, ''123456'')) = Some (1000, ''123456'')
   \<and> fst (handleSMSOrTotp (demo_browser blank_pages) no_num init_state (0, 0)
            (Some (1000, ''123456''))) = Inr ()
   \<and> submission_times
        (fst (snd (snd (snd (handleSMSOrTotp (demo_browser blank_pages) no_num init_state (0, 0)
                               (Some (1000, ''123456''))))))) = []"
  using manual_hidden[OF blank_no_auto answer_1000_in_time blank_otc_hidden] answer_1000_in_time by (simp add: init_state_def)

subsection \<open>The schedule of \<open>retryOperation\<close>\<close>

lemma invocations_append [simp]: "invocations (a @ b) = invocations a @ invocations b"
  by (induction a rule: invocations.induct) auto

lemma sleeps_append [simp]: "sleeps (a @ b) = sleeps a @ sleeps b"
  by (induction a rule: sleeps.induct) auto




lemma floor_le_whole: "x \<le> of_int n \<Longrightarrow> \<lfloor>x :: rat\<rfloor> \<le> n"
  using floor_mono[of x "of_int n"] by simp










text \<open>At the largest first draw the sum \<open>1000 + u * 500\<close> rounds up to 1500.\<close>

lemma edge_delay: "retry_delay edge_rnd 1000 True 1 = 2300"
  by code_simp




subsection \<open>The delays of \<open>HumanTyping.type\<close>\<close>

lemma burst_keys: "Key c d \<notin> set (snd (burst s n i j))"
proof (induction s n i j rule: burst.induct)
  case (1 s burstLength i j)
  show ?case
    using "1.IH"
    by (subst burst.simps) (auto split: prod.splits)
qed

lemma burst_keys_eq: "burst s n i j = (i', ev) \<Longrightarrow> Key c d \<notin> set ev"
  using burst_keys[of c d s n i j] by simp

lemma type_step_keys:
  "type_step s speed rnd i k = (ev, i', k') \<Longrightarrow> Key c d \<in> set ev \<Longrightarrow>
     d = finalDelay c (rnd k) speed"
  by (auto simp add: type_step_def Let_def split: if_splits prod.splits dest: burst_keys_eq)

lemma type_from_keys:
  "Key c d \<in> set (type_from s speed rnd i k) \<Longrightarrow> \<exists>k'. d = finalDelay c (rnd k') speed"
proof (induction s speed rnd i k rule: type_from.induct)
  case (1 s speed rnd i k)
  show ?case
  proof (cases "i < length s")
    case False
    with "1.prems" show ?thesis by (simp add: type_from.simps[of s speed rnd i k])
  next
    case True
    obtain ev i' k' where st: "type_step s speed rnd i k = (ev, i', k')"
      by (cases "type_step s speed rnd i k") auto
    from "1.prems" True st
    consider "Key c d \<in> set ev" | "Key c d \<in> set (type_from s speed rnd (i' + 1) k')"
      by (auto simp add: type_from.simps[of s speed rnd i k])
    then show ?thesis
    proof cases
      case 1
      then show ?thesis using type_step_keys[OF st] by blast
    next
      case 2
      show ?thesis by (rule "1.IH"[OF True st[symmetric] refl 2])
    qed
  qed
qed

lemma charDelay_bounds:
  assumes "0 < speed" and "80 \<le> speed * 2 ^ 50" and "0 \<le> r" and "r < 1"
  shows "\<lfloor>40 / speed\<rfloor> \<le> charDelay r speed \<and> charDelay r speed \<le> \<lceil>80 / speed\<rceil>
     \<and> 0 \<le> charDelay r speed \<and> charDelay r speed \<le> 2 ^ 50"
proof -
  define x1 where "x1 = fmul r 40"
  define x2 where "x2 = fadd 40 x1"
  have b1: "of_int 0 \<le> x1 \<and> x1 \<le> of_int 40"
    unfolding x1_def fmul_def by (rule binary64_between) (use assms in simp_all)
  have b2: "of_int 40 \<le> x2 \<and> x2 \<le> of_int 80"
    unfolding x2_def fadd_def by (rule binary64_between) (use b1 in simp_all)
  have q: "80 / speed \<le> 2 ^ 50" using assms(1,2) by (simp add: pos_divide_le_eq mult.commute)
  have lo: "40 / speed \<le> x2 / speed" using b2 assms(1) by (simp add: divide_right_mono)
  have hi: "x2 / speed \<le> 80 / speed" using b2 assms(1) by (simp add: divide_right_mono)
  have l0: "0 \<le> \<lfloor>40 / speed\<rfloor>" using assms(1) by simp
  have "\<lceil>80 / speed\<rceil> \<le> \<lceil>2 ^ 50 :: rat\<rceil>" using q by (rule ceiling_mono)
  then have h0: "\<lceil>80 / speed\<rceil> \<le> 2 ^ 50" by simp
  have "40 / speed \<le> 80 / speed" using assms(1) by (simp add: divide_right_mono)
  then have fc: "\<lfloor>40 / speed\<rfloor> \<le> \<lceil>80 / speed\<rceil>"
    by (meson floor_le_ceiling floor_mono order_trans)
  have big: "(2 :: int) ^ 50 < 2 ^ 53" by simp
  have b3: "of_int \<lfloor>40 / speed\<rfloor> \<le> fdiv x2 speed \<and> fdiv x2 speed \<le> of_int \<lceil>80 / speed\<rceil>"
    unfolding fdiv_def
  proof (rule binary64_between)
    show "of_int \<lfloor>40 / speed\<rfloor> \<le> x2 / speed" using lo by linarith
    show "x2 / speed \<le> of_int \<lceil>80 / speed\<rceil>" using hi by linarith
    show "\<bar>\<lfloor>40 / speed\<rfloor>\<bar> < 2 ^ 53" using l0 h0 fc big by linarith
    show "\<bar>\<lceil>80 / speed\<rceil>\<bar> < 2 ^ 53" using l0 h0 fc big by linarith
  qed
  have c: "charDelay r speed = \<lfloor>fdiv x2 speed\<rfloor>" by (simp add: charDelay_def x1_def x2_def)
  from b3 have "\<lfloor>40 / speed\<rfloor> \<le> \<lfloor>fdiv x2 speed\<rfloor>" by (simp only: le_floor_iff)
  moreover from b3 have "\<lfloor>fdiv x2 speed\<rfloor> \<le> \<lceil>80 / speed\<rceil>"
    by (intro floor_le_whole) simp
  ultimately show ?thesis using c l0 h0 fc by linarith
qed

lemma widened_exact:
  assumes "0 \<le> b" and "b \<le> 2 ^ 50"
  shows "fmul (of_int b) (3 / 2) = of_int b * (3 / 2)"
proof -
  have e: "(of_int b :: rat) * (3 / 2) = of_int (3 * b) / 2 ^ 1" by simp
  have "\<bar>of_int (3 * b) / 2 ^ 1 :: rat\<bar> = of_int (3 * b) / 2" using assms(1) by simp
  also have "\<dots> < 2 ^ (53 - 1)" using assms(2) by simp
  finally have "binary64 (of_int (3 * b) / 2 ^ 1) = of_int (3 * b) / 2 ^ 1"
    by (intro binary64_exact) simp_all
  then show ?thesis unfolding fmul_def e .
qed

text \<open>
  C6 (amended). With a speed multiplier \<open>s > 0\<close> (not below \<open>80 / 2^50\<close>), every
  character that \<open>HumanTyping.type\<close> types outside a burst has the delay \<open>b\<close> or
  \<open>1.5 * b\<close> where \<open>b\<close> is a whole number of milliseconds,
  \<open>Math.floor((40 + u * 40) / s)\<close> for a draw \<open>u\<close> in \<open>[0, 1)\<close>, computed in double
  arithmetic: \<open>b\<close> lies between \<open>40 / s\<close> rounded down and \<open>80 / s\<close> rounded up.
  The factor 1.5 applies exactly to the characters other than letters, digits, \<open>@\<close>
  and the dot.
\<close>

theorem HumanTyping_type_delays:
  assumes "0 < speed" and "80 \<le> speed * 2 ^ 50" and "\<forall>k. 0 \<le> rnd k \<and> rnd k < 1"
    and "Key c d \<in> set (HumanTyping_type s speed rnd)"
  shows "\<exists>(b :: int) k. b = charDelay (rnd k) speed
           \<and> \<lfloor>40 / speed\<rfloor> \<le> b \<and> b \<le> \<lceil>80 / speed\<rceil>
           \<and> d = (if isSpecialChar c then of_int b * (3 / 2) else of_int b)"
proof -
  from assms(4) have "Key c d \<in> set (type_from s speed rnd 0 1)"
    by (simp add: HumanTyping_type_def)
  then obtain k' where d: "d = finalDelay c (rnd k') speed"
    using type_from_keys by blast
  have b: "\<lfloor>40 / speed\<rfloor> \<le> charDelay (rnd k') speed
      \<and> charDelay (rnd k') speed \<le> \<lceil>80 / speed\<rceil>
      \<and> 0 \<le> charDelay (rnd k') speed \<and> charDelay (rnd k') speed \<le> 2 ^ 50"
    using charDelay_bounds[OF assms(1,2)] assms(3) by blast
  then have "fmul (of_int (charDelay (rnd k') speed)) (3 / 2)
      = of_int (charDelay (rnd k') speed) * (3 / 2)"
    using widened_exact by blast
  with d have "d = (if isSpecialChar c then of_int (charDelay (rnd k') speed) * (3 / 2)
                    else of_int (charDelay (rnd k') speed))"
    by (simp add: finalDelay_def)
  with b show ?thesis by blast
qed

lemma half_run: "HumanTyping_type ''a!'' 1 half_rnd
    = [Pause 100, Key CHR ''a'' 60, Key CHR ''!'' 90, Pause 200]"
  by code_simp

text \<open>At the largest draw the sum \<open>40 + u * 40\<close> rounds to 80.\<close>

lemma top_charDelay: "charDelay (top_rnd 0) 1 = 80"
  by code_simp

theorem HumanTyping_type_delays_witness:
  "0 < (1 :: rat) \<and> (80 :: rat) \<le> 1 * 2 ^ 50 \<and> 0 \<le> half_rnd 7 \<and> half_rnd 7 < 1
   \<and> Key CHR ''!'' 90 \<in> set (HumanTyping_type ''a!'' 1 half_rnd)
   \<and> isSpecialChar CHR ''!''
   \<and> (\<exists>b :: int. \<lfloor>40 / (1 :: rat)\<rfloor> \<le> b \<and> b \<le> \<lceil>80 / (1 :: rat)\<rceil>
          \<and> (90 :: rat) = of_int b * (3 / 2))"
proof -
  have r: "\<forall>k. 0 \<le> half_rnd k \<and> half_rnd k < 1" by (simp add: half_rnd_def)
  have m: "Key CHR ''!'' 90 \<in> set (HumanTyping_type ''a!'' 1 half_rnd)"
    by (simp add: half_run)
  have sp: "isSpecialChar CHR ''!''" by code_simp
  have s1: "0 < (1 :: rat)" by simp
  have s2: "(80 :: rat) \<le> 1 * 2 ^ 50" by simp
  from HumanTyping_type_delays[OF s1 s2 r m] sp
  have e: "\<exists>b :: int. \<lfloor>40 / (1 :: rat)\<rfloor> \<le> b \<and> b \<le> \<lceil>80 / (1 :: rat)\<rceil>
          \<and> (90 :: rat) = of_int b * (3 / 2)"
    by auto
  have r7: "0 \<le> half_rnd 7" "half_rnd 7 < 1" using r by simp_all
  show ?thesis by (intro conjI) (rule s1 s2 r7 m sp e)+
qed

text \<open>
  The claim as first stated bounds the delay below by \<open>40 / s\<close> and widens it for every
  non-alphanumeric character. At speed 3 the delay can be 13 ms, below \<open>40 / 3\<close>, and
  the character \<open>@\<close> is typed with the same delay as a letter.
\<close>

theorem HumanTyping_type_claim_counterexample:
  "HumanTyping_type ''a@'' 3 zero_rnd
     = [Pause 50, Key CHR ''a'' 13, Key CHR ''@'' 13, Pause 100, Pause 100]
   \<and> (13 :: rat) < 40 / 3
   \<and> \<not> is_alnum CHR ''@''"
  by code_simp

subsection \<open>The recovery loop of \<open>handleEmailErrors\<close>\<close>




lemma resubmissions_append [simp]:
  "resubmissions (a @ b) = resubmissions a @ resubmissions b"
  by (induction a rule: resubmissions.induct) auto








text \<open>
  The test \<open>retryCount >= MAX_EMAIL_RETRIES\<close> comes before the look at the page: after
  the fifth resubmission the page is not looked at any more, so an address accepted
  only then is not returned.
\<close>

lemma fifth_resubmission_unseen:
  "env_error late_env 5 = None
   \<and> length (resubmissions (snd (handleEmailErrors late_env zero_rnd ''alice@contoso.com'' 0))) = 5
   \<and> fst (handleEmailErrors late_env zero_rnd ''alice@contoso.com'' 0) = NeverResolves"
proof -
  have "handleEmailErrors late_env zero_rnd ''alice@contoso.com'' 0
     = (NeverResolves,
        [Submitted ''alice@outlook.com'', Submitted ''alice@outlook.com'',
         Submitted ''alice@outlook.com'', Submitted ''alice@outlook.com'',
         Submitted ''alice@outlook.com''])"
    by code_simp
  then show ?thesis by (simp add: late_env_def)
qed

subsection \<open>The vacation days of \<open>normalizeConfig\<close>\<close>

text \<open>
  What holds of every accepted configuration: the pair is ordered and not negative, the
  defaults are 3 and 5, and the days are positive when neither input lies strictly
  between 0 and 1.
\<close>

lemma days_or_nonneg: "0 \<le> dflt \<Longrightarrow> 0 \<le> days_or v dflt"
  by (cases v) (auto simp add: days_or_def)

lemma days_or_pos: "0 < dflt \<Longrightarrow> (\<forall>q. v = Fin q \<longrightarrow> q \<le> 0 \<or> 1 \<le> q) \<Longrightarrow> 0 < days_or v dflt"
  by (cases v) (auto simp add: days_or_def floor_less_iff not_less intro: order_less_le_trans)

lemma normalize_vacation_ordered:
  assumes "normalize_vacation num field = Inr v"
  shows "minDays v \<le> maxDays v \<and> 0 \<le> minDays v"
proof -
  have "0 \<le> days_or x 3" "0 \<le> days_or x 5" for x
    by (simp_all add: days_or_nonneg)
  then show ?thesis
    using assms
    by (cases field) (auto simp add: normalize_vacation_def Let_def split: if_splits)
qed

lemma normalize_vacation_defaults:
  "normalize_vacation num VacFalsy = Inr \<lparr>enabled = False, minDays = 3, maxDays = 5\<rparr>"
  by (simp add: normalize_vacation_def Number_js_def days_or_def)

lemma normalize_vacation_positive:
  assumes "normalize_vacation num (VacObject r) = Inr v"
    and "\<forall>q. Number_js num (raw_minDays r) = Fin q \<longrightarrow> q \<le> 0 \<or> 1 \<le> q"
    and "\<forall>q. Number_js num (raw_maxDays r) = Fin q \<longrightarrow> q \<le> 0 \<or> 1 \<le> q"
  shows "0 < minDays v"
proof -
  have "0 < days_or (Number_js num (raw_minDays r)) 3"
    using days_or_pos[of 3 "Number_js num (raw_minDays r)"] assms(2) by simp
  moreover have "0 < days_or (Number_js num (raw_maxDays r)) 5"
    using days_or_pos[of 5 "Number_js num (raw_maxDays r)"] assms(3) by simp
  ultimately show ?thesis
    using assms(1) by (auto simp add: normalize_vacation_def Let_def split: if_splits)
qed

text \<open>
  C10. The returned \<open>vacation.minDays\<close> and \<open>vacation.maxDays\<close> are meant to be
  positive integers, but the test \<open>v > 0\<close> is made before \<open>Math.floor\<close>: for the
  configuration \<open>{ vacation: { enabled: true, minDays: 0.5, maxDays: 0.5 } }\<close>
  \<open>normalizeConfig\<close> returns 0 for both fields.
\<close>

theorem normalize_vacation_zero:
  "normalize_vacation num half_days = Inr \<lparr>enabled = True, minDays = 0, maxDays = 0\<rparr>"
proof -
  have "\<lfloor>(1 :: rat) / 2\<rfloor> = 0" by (simp add: floor_eq_iff)
  then show ?thesis
    by (simp add: normalize_vacation_def half_days_def Number_js_def days_or_def Let_def)
qed

subsection \<open>The error id and the duplicates of the report endpoint\<close>

lemma local_char: "(\<And>w. S w \<Longrightarrow> \<not> P w) \<Longrightarrow> local_at S (m_char P)"
  by (auto simp add: local_at_def m_char_def split: list.splits if_splits)

lemma startsWith_append_sep:
  "w \<notin> set lit \<Longrightarrow> startsWith (s @ w # t) lit = startsWith s lit"
proof (induction s lit rule: startsWith.induct)
  case (1 s)
  then show ?case by simp
next
  case (2 p ps)
  then show ?case by auto
next
  case (3 c cs p ps)
  then show ?case by simp
qed

lemma local_str:
  assumes "\<And>w. S w \<Longrightarrow> w \<notin> set lit"
  shows "local_at S (m_str lit)"
proof -
  have "n \<le> length s" if "m_str lit s = Some n" for s n
  proof -
    from that have "startsWith s lit" "n = length lit"
      by (auto simp add: m_str_def split: if_splits)
    then show ?thesis by (auto simp add: startsWith_iff)
  qed
  moreover have "m_str lit (s @ w # t) = m_str lit s" if "S w" for s w t
    using assms[OF that] by (simp add: m_str_def startsWith_append_sep)
  ultimately show ?thesis by (simp add: local_at_def)
qed

lemma local_seq:
  assumes "local_at S m1" and "local_at S m2"
  shows "local_at S (m_seq m1 m2)"
proof -
  have b1: "\<And>s n. m1 s = Some n \<Longrightarrow> n \<le> length s"
    and l1: "\<And>s w t. S w \<Longrightarrow> m1 (s @ w # t) = m1 s"
    and b2: "\<And>s n. m2 s = Some n \<Longrightarrow> n \<le> length s"
    and l2: "\<And>s w t. S w \<Longrightarrow> m2 (s @ w # t) = m2 s"
    using assms by (auto simp add: local_at_def)
  have "n \<le> length s" if "m_seq m1 m2 s = Some n" for s n
  proof -
    from that obtain a b where ab: "m1 s = Some a" "m2 (drop a s) = Some b" "n = a + b"
      by (auto simp add: m_seq_def split: option.splits)
    from b1[OF ab(1)] b2[OF ab(2)] ab(3) show ?thesis by simp
  qed
  moreover have "m_seq m1 m2 (s @ w # t) = m_seq m1 m2 s" if w: "S w" for s w t
  proof (cases "m1 s")
    case None
    then show ?thesis using l1[OF w] by (simp add: m_seq_def)
  next
    case (Some a)
    then have "a \<le> length s" using b1 by simp
    then have "drop a (s @ w # t) = drop a s @ w # t" by simp
    then show ?thesis using Some l1[OF w] l2[OF w] by (simp add: m_seq_def)
  qed
  ultimately show ?thesis by (simp add: local_at_def)
qed

lemma local_alt: "local_at S m1 \<Longrightarrow> local_at S m2 \<Longrightarrow> local_at S (m_alt m1 m2)"
  by (auto simp add: local_at_def m_alt_def split: option.splits)

lemma local_opt: "local_at S m \<Longrightarrow> local_at S (m_opt m)"
  by (auto simp add: local_at_def m_opt_def split: option.splits)

lemma takeWhile_sep:
  "\<not> P w \<Longrightarrow> takeWhile P (s @ w # t) = takeWhile P s"
  by (induction s) auto

lemma local_star: "(\<And>w. S w \<Longrightarrow> \<not> P w) \<Longrightarrow> local_at S (m_star P)"
  by (auto simp add: local_at_def m_star_def takeWhile_sep length_takeWhile_le)

lemma local_plus: "(\<And>w. S w \<Longrightarrow> \<not> P w) \<Longrightarrow> local_at S (m_plus P)"
  by (auto simp add: local_at_def m_plus_def takeWhile_sep length_takeWhile_le
      split: if_splits)

lemma local_rep: "(\<And>w. S w \<Longrightarrow> \<not> P w) \<Longrightarrow> local_at S (m_rep k P)"
proof (induction k)
  case 0
  show ?case by (simp add: local_at_def)
next
  case (Suc k)
  have "m_rep (Suc k) P = m_seq (m_char P) (m_rep k P)" by (rule ext) simp
  then show ?case using local_seq[OF local_char[of S P] Suc.IH] Suc.prems by simp
qed





lemma plain_not_digit: "plain w \<Longrightarrow> \<not> is_digit w"
  by (simp add: plain_def)

lemma plain_not_hex: "plain w \<Longrightarrow> \<not> is_hex w"
  by (auto simp add: plain_def is_hex_def is_digit_def is_letter_def Let_def)

lemma not_plain_lit:
  "\<not> plain CHR ''-''" "\<not> plain CHR ''T''" "\<not> plain CHR '':''" "\<not> plain CHR ''.''"
  "\<not> plain CHR ''Z''" "\<not> plain CHR ''0''" "\<not> plain CHR ''x''"
  by code_simp+

lemma plain_not_lit:
  "plain w \<Longrightarrow> w \<noteq> CHR ''-''" "plain w \<Longrightarrow> w \<noteq> CHR ''T''"
  "plain w \<Longrightarrow> w \<noteq> CHR '':''" "plain w \<Longrightarrow> w \<noteq> CHR ''.''"
  "plain w \<Longrightarrow> w \<noteq> CHR ''Z''" "plain w \<Longrightarrow> w \<noteq> CHR ''0''"
  "plain w \<Longrightarrow> w \<noteq> CHR ''x''"
  using not_plain_lit by blast+

lemmas local_intros =
  local_seq local_alt local_opt local_str local_char local_star local_plus local_rep


lemmas plain_facts = plain_not_digit plain_not_hex plain_not_lit





lemma plain_iso: "local_at plain re_iso"
  unfolding re_iso_def by (intro local_intros) (simp_all add: plain_facts)

lemma plain_hex: "local_at plain re_hex"
  unfolding re_hex_def by (intro local_intros) (simp_all add: plain_facts)

lemma plain_linecol: "local_at plain re_linecol"
  unfolding re_linecol_def by (intro local_intros) (simp_all add: plain_facts)




lemma gsub_whole: "m s = Some (length s) \<Longrightarrow> s \<noteq> [] \<Longrightarrow> gsub m rep s = rep s"
  by (cases s) auto



lemma gsub_skip:
  assumes "\<And>c cs. Q c \<Longrightarrow> m (c # cs) = None"
    and "\<forall>c\<in>set a. Q c"
  shows "gsub m rep (a @ x) = a @ gsub m rep x"
  using assms(2) by (induction a) (simp_all add: assms(1))



text \<open>What a match of each combinator says about the text.\<close>

lemma m_seq_Some:
  "m_seq m1 m2 u = Some n \<longleftrightarrow> (\<exists>a b. m1 u = Some a \<and> m2 (drop a u) = Some b \<and> n = a + b)"
  by (auto simp add: m_seq_def split: option.splits)

lemma m_str_Some: "m_str lit u = Some n \<longleftrightarrow> n = length lit \<and> (\<exists>q. u = lit @ q)"
  by (auto simp add: m_str_def startsWith_iff)

lemma m_char_Some: "m_char P u = Some n \<longleftrightarrow> n = 1 \<and> (\<exists>c cs. u = c # cs \<and> P c)"
  by (auto simp add: m_char_def split: list.splits)





lemma seq_first: "m_seq m1 m2 u = Some n \<Longrightarrow> \<exists>a. m1 u = Some a"
  by (auto simp add: m_seq_Some)

lemma iso_first:
  assumes "re_iso (c # cs) = Some n"
  shows "is_digit c"
proof -
  from assms obtain a where "m_rep 4 is_digit (c # cs) = Some a"
    unfolding re_iso_def by (blast dest: seq_first)
  then show ?thesis by (auto simp add: eval_nat_numeral m_seq_Some m_char_Some)
qed

lemma hex_first: "re_hex u = Some n \<Longrightarrow> \<exists>cs. u = CHR ''0'' # CHR ''x'' # cs"
  by (auto simp add: re_hex_def m_seq_Some m_str_Some)

lemma path_first: "re_path (c # cs) = Some n \<Longrightarrow> is_letter c \<or> c = CHR ''/''"
  by (auto simp add: re_path_def m_seq_Some m_alt_def m_str_Some m_char_Some split: option.splits)

lemma linecol_first: "re_linecol u = Some n \<Longrightarrow> \<exists>cs. u = CHR '':'' # cs"
  by (auto simp add: re_linecol_def m_seq_Some m_str_Some)








text \<open>No pattern matches at a plain character.\<close>

lemma plain_not_digit': "plain c \<Longrightarrow> \<not> is_digit c"
  by (simp add: plain_def)

lemma iso_plain: "plain c \<Longrightarrow> re_iso (c # cs) = None"
  using iso_first[of c cs] by (cases "re_iso (c # cs)") (auto simp add: plain_def)

lemma hex_plain: "plain c \<Longrightarrow> re_hex (c # cs) = None"
  using hex_first[of "c # cs"] plain_not_lit(6)[of c] by (cases "re_hex (c # cs)") auto

lemma path_plain: "plain c \<Longrightarrow> re_path (c # cs) = None"
  using path_first[of c cs] by (cases "re_path (c # cs)") (auto simp add: plain_def)

lemma linecol_plain: "plain c \<Longrightarrow> re_linecol (c # cs) = None"
  using linecol_first[of "c # cs"] plain_not_lit(3)[of c] by (cases "re_linecol (c # cs)") auto

lemma gsub_plain:
  assumes "\<forall>c\<in>set a. plain c"
  shows "gsub re_iso rep (a @ x) = a @ gsub re_iso rep x"
    and "gsub re_hex rep (a @ x) = a @ gsub re_hex rep x"
    and "gsub re_path rep (a @ x) = a @ gsub re_path rep x"
    and "gsub re_linecol rep (a @ x) = a @ gsub re_linecol rep x"
proof -
  show "gsub re_iso rep (a @ x) = a @ gsub re_iso rep x"
    by (rule gsub_skip[where Q = plain]) (use assms iso_plain in auto)
  show "gsub re_hex rep (a @ x) = a @ gsub re_hex rep x"
    by (rule gsub_skip[where Q = plain]) (use assms hex_plain in auto)
  show "gsub re_path rep (a @ x) = a @ gsub re_path rep x"
    by (rule gsub_skip[where Q = plain]) (use assms path_plain in auto)
  show "gsub re_linecol rep (a @ x) = a @ gsub re_linecol rep x"
    by (rule gsub_skip[where Q = plain]) (use assms linecol_plain in auto)
qed

lemma normalize_plain:
  assumes "\<forall>c\<in>set a. plain c"
  shows "normalize_tokens (a @ x) = a @ normalize_tokens x"
  by (simp add: normalize_tokens_def gsub_plain[OF assms])

lemma normalize_Nil: "normalize_tokens [] = []"
  by (simp add: normalize_tokens_def)

lemma normalize_all_plain: "\<forall>c\<in>set z. plain c \<Longrightarrow> normalize_tokens z = z"
  using normalize_plain[of z "[]"] by (simp add: normalize_Nil)





































lemma canonical_ann:
  "canonical ann = ''TypeError: x is undefined at ptr|at foo ([PATH])|platform=linux|version=1.0|a=1|b=2''"
  by code_simp






end
